theory Spec2Isabelle
  imports Main "HOL-Library.Sublist" "HOL-Library.List_Lexorder"
begin

section \<open>Python values\<close>

text \<open>
  A Python \<^verbatim>\<open>str\<close> is a sequence of Unicode code points, and every string operation of
  the program (\<^verbatim>\<open>strip\<close>, \<^verbatim>\<open>split\<close>, \<^verbatim>\<open>in\<close>, \<^verbatim>\<open>re.sub\<close>, comparison) works on code points.
  A string is therefore a list of natural numbers, one per code point; \<open>ascii\<close> turns an
  ASCII literal into that form.
\<close>

type_synonym ustr = "nat list"

definition ascii :: "string \<Rightarrow> ustr" where
  "ascii s = map of_char s"

text \<open>The exceptions that the modelled code can meet.\<close>

datatype py_error = IndexError | ValueError | CancelledError | KeyError ustr

text \<open>
  \<^verbatim>\<open>xs[i]\<close> on a list: a negative index counts from the end, an index outside
  \<^verbatim>\<open>-len(xs) .. len(xs)-1\<close> raises IndexError.
\<close>

definition py_index :: "'a list \<Rightarrow> int \<Rightarrow> py_error + 'a" where
  "py_index xs i =
     (if 0 \<le> i \<and> i < int (length xs) then Inr (xs ! nat i)
      else if i < 0 \<and> - int (length xs) \<le> i then Inr (xs ! nat (int (length xs) + i))
      else Inl IndexError)"

text \<open>
  The code points for which \<^verbatim>\<open>str.isspace\<close> holds. \<^verbatim>\<open>str.strip()\<close> without argument and
  the class \<^verbatim>\<open>\s\<close> of a \<^verbatim>\<open>str\<close> pattern both use this set.
\<close>

definition py_isspace :: "nat \<Rightarrow> bool" where
  "py_isspace c \<longleftrightarrow>
     (9 \<le> c \<and> c \<le> 13) \<or> (28 \<le> c \<and> c \<le> 32) \<or> c = 0x85 \<or> c = 0xA0 \<or> c = 0x1680 \<or>
     (0x2000 \<le> c \<and> c \<le> 0x200A) \<or> c = 0x2028 \<or> c = 0x2029 \<or> c = 0x202F \<or>
     c = 0x205F \<or> c = 0x3000"

text \<open>\<^verbatim>\<open>s.strip(chars)\<close>: drop the leading and the trailing code points that satisfy \<open>P\<close>.\<close>

definition strip_where :: "(nat \<Rightarrow> bool) \<Rightarrow> ustr \<Rightarrow> ustr" where
  "strip_where P s = rev (dropWhile P (rev (dropWhile P s)))"

definition py_strip :: "ustr \<Rightarrow> ustr" where
  "py_strip s = strip_where py_isspace s"

definition py_strip_chars :: "ustr \<Rightarrow> ustr \<Rightarrow> ustr" where
  "py_strip_chars chars s = strip_where (\<lambda>c. c \<in> set chars) s"

text \<open>
  \<^verbatim>\<open>s.split(sep)\<close> for a separator of one code point: the pieces between the separators,
  never an empty list.
\<close>

fun py_split :: "nat \<Rightarrow> ustr \<Rightarrow> ustr list" where
  "py_split sep [] = [[]]"
| "py_split sep (c # cs) =
     (if c = sep then [] # py_split sep cs
      else (case py_split sep cs of
              [] \<Rightarrow> [[c]]
            | p # ps \<Rightarrow> (c # p) # ps))"

definition nl :: nat where
  "nl = 10"

section \<open>The patterns of the label normalizer\<close>

text \<open>
  The four patterns of \<^verbatim>\<open>clean_common_name\<close> all have the shape \<^verbatim>\<open>^ atoms \s*\<close>, where an
  atom is a literal code point or a class of code points (\<^verbatim>\<open>[::]\<close> with the ASCII and the
  full-width colon). With \<^verbatim>\<open>re.IGNORECASE\<close> a literal matches a code point of the same
  lower case. Of the non-ASCII code points only U+0130, U+0131, U+017F and U+212A have a
  case relation to an ASCII letter (i, s, k); none of these letters occurs in the
  patterns of the program, so lower-casing A-Z is the whole of the case folding here.
\<close>

datatype atom = Lit nat | OneOf "nat list"

definition ascii_lower :: "nat \<Rightarrow> nat" where
  "ascii_lower c = (if 65 \<le> c \<and> c \<le> 90 then c + 32 else c)"

fun atom_matches :: "bool \<Rightarrow> atom \<Rightarrow> nat \<Rightarrow> bool" where
  "atom_matches ignorecase (Lit a) c =
     (if ignorecase then ascii_lower a = ascii_lower c else a = c)"
| "atom_matches ignorecase (OneOf as) c =
     (if ignorecase then ascii_lower c \<in> set (map ascii_lower as) else c \<in> set as)"

text \<open>The rest of the subject after the atoms have matched at its start, if they do.\<close>

fun match_atoms :: "bool \<Rightarrow> atom list \<Rightarrow> ustr \<Rightarrow> ustr option" where
  "match_atoms ignorecase [] s = Some s"
| "match_atoms ignorecase (a # as) [] = None"
| "match_atoms ignorecase (a # as) (c # cs) =
     (if atom_matches ignorecase a c then match_atoms ignorecase as cs else None)"

text \<open>
  \<^verbatim>\<open>re.sub('^' atoms '\s*', '', s)\<close>. Without \<^verbatim>\<open>re.MULTILINE\<close> the anchor holds at the start
  of the string only and the match there is not empty, so at most one match is replaced:
  the atoms and the longest run of white space after them are removed.
\<close>

definition re_sub :: "atom list \<Rightarrow> bool \<Rightarrow> ustr \<Rightarrow> ustr" where
  "re_sub pattern ignorecase s =
     (case match_atoms ignorecase pattern s of
        None \<Rightarrow> s
      | Some rest \<Rightarrow> dropWhile py_isspace rest)"

definition lits :: "ustr \<Rightarrow> atom list" where
  "lits s = map Lit s"

definition colon_class :: atom where
  "colon_class = OneOf [0x3A, 0xFF1A]"

definition ja_patterns :: "atom list list" where
  "ja_patterns =
     [lits [0x547C, 0x79F0] @ [colon_class],
      lits [0x65E5, 0x672C, 0x8A9E, 0x540D] @ [colon_class]]"

definition en_patterns :: "atom list list" where
  "en_patterns = [lits (ascii ''Common Name:''), lits (ascii ''Name:'')]"

definition ja_quotes :: ustr where
  "ja_quotes = [0x300C, 0x300D, 0x300E, 0x300F, 0x22, 0x22, 0x27, 0x22]"

definition en_quotes :: ustr where
  "en_quotes = [0x22, 0x27]"

section \<open>clean\_common\_name\<close>

text \<open>
  Lines 57-58 and 74-75 of main.py:
  \<^verbatim>\<open>if '\n' in common_name: common_name = common_name.split('\n')[0].strip()\<close>.
\<close>

definition first_line :: "ustr \<Rightarrow> py_error + ustr" where
  "first_line common_name =
     (if nl \<in> set common_name then
        (case py_index (py_split nl common_name) 0 of
           Inl e \<Rightarrow> Inl e
         | Inr piece \<Rightarrow> Inr (py_strip piece))
      else Inr common_name)"

definition clean_common_name :: "ustr \<Rightarrow> ustr \<Rightarrow> py_error + ustr" where
  "clean_common_name common_name language =
     (let stripped = py_strip common_name in
      if language = ascii ''ja'' then
        (case first_line (fold (\<lambda>pattern s. re_sub pattern False s) ja_patterns stripped) of
           Inl e \<Rightarrow> Inl e
         | Inr line \<Rightarrow> Inr (py_strip (py_strip_chars ja_quotes line)))
      else
        (case first_line (fold (\<lambda>pattern s. re_sub pattern True s) en_patterns stripped) of
           Inl e \<Rightarrow> Inl e
         | Inr line \<Rightarrow> Inr (py_strip (py_strip_chars en_quotes line))))"

section \<open>The normalizer as the specification words it\<close>

text \<open>
  The specification describes the normalizer as a composition of five steps: trim;
  remove the language's leading label prefixes, matched at the start of the string
  (without regard to case for English); keep the text before the first line break, if
  there is one, and trim it; strip the language's quote and bracket characters from both
  ends; trim. The definitions below follow these words; \<open>normalize_spec\<close> is compared with
  \<open>clean_common_name\<close> further down. The first prefix group of a language is removed
  before the second, as the program applies its patterns, and a removed prefix takes the
  white space after it along.
\<close>

definition casefold :: "bool \<Rightarrow> nat \<Rightarrow> nat" where
  "casefold ignorecase c = (if ignorecase then ascii_lower c else c)"

definition starts_with :: "bool \<Rightarrow> ustr \<Rightarrow> ustr \<Rightarrow> bool" where
  "starts_with ignorecase label s \<longleftrightarrow>
     prefix (map (casefold ignorecase) label) (map (casefold ignorecase) s)"

definition drop_label :: "bool \<Rightarrow> ustr list \<Rightarrow> ustr \<Rightarrow> ustr" where
  "drop_label ignorecase alternatives s =
     (case find (\<lambda>label. starts_with ignorecase label s) alternatives of
        None \<Rightarrow> s
      | Some label \<Rightarrow> dropWhile py_isspace (drop (length label) s))"

definition is_ja :: "ustr \<Rightarrow> bool" where
  "is_ja language \<longleftrightarrow> language = ascii ''ja''"

definition label_prefixes :: "ustr \<Rightarrow> ustr list list" where
  "label_prefixes language =
     (if is_ja language then
        [[[0x547C, 0x79F0, 0x3A], [0x547C, 0x79F0, 0xFF1A]],
         [[0x65E5, 0x672C, 0x8A9E, 0x540D, 0x3A], [0x65E5, 0x672C, 0x8A9E, 0x540D, 0xFF1A]]]
      else [[ascii ''Common Name:''], [ascii ''Name:'']])"

definition quote_chars :: "ustr \<Rightarrow> nat set" where
  "quote_chars language =
     (if is_ja language then {0x300C, 0x300D, 0x300E, 0x300F, 0x22, 0x27} else {0x22, 0x27})"

definition trim :: "ustr \<Rightarrow> ustr" where
  "trim s = strip_where py_isspace s"

definition remove_prefixes :: "ustr \<Rightarrow> ustr \<Rightarrow> ustr" where
  "remove_prefixes language s =
     fold (drop_label (\<not> is_ja language)) (label_prefixes language) s"

definition keep_first_line :: "ustr \<Rightarrow> ustr" where
  "keep_first_line s = (if nl \<in> set s then trim (takeWhile (\<lambda>c. c \<noteq> nl) s) else s)"

definition strip_quotes :: "ustr \<Rightarrow> ustr \<Rightarrow> ustr" where
  "strip_quotes language s = strip_where (\<lambda>c. c \<in> quote_chars language) s"

definition begins_with_label :: "ustr \<Rightarrow> ustr \<Rightarrow> bool" where
  "begins_with_label language s \<longleftrightarrow>
     list_ex (list_ex (\<lambda>label. starts_with (\<not> is_ja language) label s))
       (label_prefixes language)"

definition quoted_end :: "ustr \<Rightarrow> ustr \<Rightarrow> bool" where
  "quoted_end language s \<longleftrightarrow>
     s \<noteq> [] \<and> (hd s \<in> quote_chars language \<or> last s \<in> quote_chars language)"

definition normalize_spec :: "ustr \<Rightarrow> ustr \<Rightarrow> ustr" where
  "normalize_spec raw language =
     trim (strip_quotes language (keep_first_line (remove_prefixes language (trim raw))))"

text \<open>\<^verbatim>\<open>normalize(normalize(x))\<close>: the normalizer applied to its own result.\<close>

definition clean_twice :: "ustr \<Rightarrow> ustr \<Rightarrow> py_error + ustr" where
  "clean_twice x language =
     (case clean_common_name x language of
        Inl e \<Rightarrow> Inl e
      | Inr y \<Rightarrow> clean_common_name y language)"

lemmas clean_defs = clean_common_name_def ascii_def first_line_def py_strip_def strip_where_def
  py_isspace_def en_patterns_def ja_patterns_def lits_def re_sub_def py_strip_chars_def
  en_quotes_def ja_quotes_def ascii_lower_def nl_def py_index_def colon_class_def

section \<open>get\_common\_name\<close>

text \<open>
  \<^verbatim>\<open>s.replace(old, new)\<close>: the occurrences of \<open>old\<close> are replaced from left to right, without
  overlap. For an empty \<open>old\<close> Python puts \<open>new\<close> before every code point and at the end.
\<close>

function py_replace :: "ustr \<Rightarrow> ustr \<Rightarrow> ustr \<Rightarrow> ustr" where
  "py_replace old new s =
     (if old = [] then new @ concat (map (\<lambda>c. c # new) s)
      else if s = [] then []
      else if prefix old s then new @ py_replace old new (drop (length old) s)
      else hd s # py_replace old new (tl s))"
  by pat_completeness auto
termination
  by (relation "measure (\<lambda>(old, new, s). length s)") (auto simp: neq_Nil_conv)

text \<open>
  The external completion service. One awaited call of
  \<^verbatim>\<open>client.beta.chat.completions.parse\<close> followed by \<^verbatim>\<open>response.choices[0].message.parsed\<close>
  either gives the parsed payload (absent, or the one string field of the response model
  that was requested: \<^verbatim>\<open>common_name\<close> for English, the Japanese field for Japanese), or
  raises an exception, of which the program reads only \<^verbatim>\<open>str(e)\<close>. The service is a
  parameter: it says what the call of a request answers at each attempt (counted from 0).
  Exceptions that are no \<^verbatim>\<open>Exception\<close> (task cancellation) are not answers of the service;
  the scheduler below meets them at its own await.
\<close>

datatype outcome = Parsed "ustr option" | Raised ustr

record request =
  req_model :: ustr
  req_prompt :: ustr
  req_japanese_format :: bool

type_synonym service = "request \<Rightarrow> int \<Rightarrow> outcome"

datatype client_event = Called request | Slept int

definition sentinel :: ustr where
  "sentinel = [0x30A8, 0x30E9, 0x30FC]"

definition gpt_4o :: ustr where
  "gpt_4o = ascii ''gpt-4o''"

text \<open>
  The only use of \<^verbatim>\<open>str.lower\<close> in the program is the search for the ASCII text
  \<^verbatim>\<open>rate_limit\<close> in the lower-cased message. Besides A-Z, \<^verbatim>\<open>str.lower\<close> turns two code points
  into ASCII letters: U+212A into \<^verbatim>\<open>k\<close>, which the text does not contain, and U+0130 into
  \<^verbatim>\<open>i\<close> followed by U+0307, which the text does not contain either. Lower-casing A-Z
  therefore finds the text exactly where \<^verbatim>\<open>error_message.lower()\<close> has it.
\<close>

definition py_lower :: "ustr \<Rightarrow> ustr" where
  "py_lower s = map ascii_lower s"

text \<open>Line 125: \<^verbatim>\<open>"429" in error_message or "rate_limit" in error_message.lower()\<close>.\<close>

definition is_rate_limit :: "ustr \<Rightarrow> bool" where
  "is_rate_limit error_message \<longleftrightarrow>
     sublist (ascii ''429'') error_message \<or>
     sublist (ascii ''rate_limit'') (py_lower error_message)"

text \<open>\<^verbatim>\<open>str(e)\<close> of the exceptions that the model itself can raise.\<close>

fun error_str :: "py_error \<Rightarrow> ustr" where
  "error_str IndexError = ascii ''list index out of range''"
| "error_str ValueError = ascii ''range() arg 3 must not be zero''"
| "error_str CancelledError = []"
| "error_str (KeyError key) = [0x27] @ key @ [0x27]"

text \<open>
  The body of the \<^verbatim>\<open>try\<close> (lines 99-121): the label that it returns, or the message of the
  exception that it raises. The call of \<open>clean_common_name\<close> stands inside the \<^verbatim>\<open>try\<close>.
\<close>

definition try_body :: "outcome \<Rightarrow> ustr \<Rightarrow> ustr + ustr" where
  "try_body answer language =
     (case answer of
        Raised error_message \<Rightarrow> Inl error_message
      | Parsed parsed_response \<Rightarrow>
          (let common_name = (case parsed_response of Some field \<Rightarrow> field | None \<Rightarrow> sentinel)
           in case clean_common_name common_name language of
                Inl e \<Rightarrow> Inl (error_str e)
              | Inr cleaned \<Rightarrow> Inr cleaned))"

text \<open>
  The loop \<^verbatim>\<open>for attempt in range(max_retries)\<close> (lines 97-136) over the attempts that are
  left; the result is the returned label and the calls and sleeps made, in order.
\<close>

fun attempts ::
  "service \<Rightarrow> request \<Rightarrow> ustr \<Rightarrow> int \<Rightarrow> int list \<Rightarrow> ustr \<times> client_event list" where
  "attempts svc req language max_retries [] = (sentinel, [])"
| "attempts svc req language max_retries (attempt # rest) =
     (case try_body (svc req attempt) language of
        Inr common_name \<Rightarrow> (common_name, [Called req])
      | Inl error_message \<Rightarrow>
          if is_rate_limit error_message then
            (let wait_time = 10 * (attempt + 1) in
             if attempt = max_retries - 1 then (sentinel, [Called req, Slept wait_time])
             else (case attempts svc req language max_retries rest of
                     (common_name, evs) \<Rightarrow> (common_name, Called req # Slept wait_time # evs)))
          else (sentinel, [Called req]))"

definition build_request :: "ustr \<Rightarrow> ustr \<Rightarrow> ustr \<Rightarrow> ustr \<Rightarrow> request" where
  "build_request species prompt_template model language =
     \<lparr>req_model = model,
      req_prompt = py_replace (ascii ''[species]'') species prompt_template,
      req_japanese_format = (language = ascii ''ja'')\<rparr>"

definition get_common_name ::
  "service \<Rightarrow> ustr \<Rightarrow> ustr \<Rightarrow> ustr \<Rightarrow> ustr \<Rightarrow> int \<Rightarrow> ustr \<times> client_event list" where
  "get_common_name svc species prompt_template model language max_retries =
     attempts svc (build_request species prompt_template model language) language max_retries
       [0..max_retries - 1]"

text \<open>The calls and sleeps of a run of attempts that all met the rate limit.\<close>

definition throttled :: "request \<Rightarrow> int list \<Rightarrow> client_event list" where
  "throttled req numbers = concat (map (\<lambda>n. [Called req, Slept (10 * n)]) numbers)"

definition rate_limited :: "outcome \<Rightarrow> bool" where
  "rate_limited answer \<longleftrightarrow>
     (case answer of Raised error_message \<Rightarrow> is_rate_limit error_message | Parsed _ \<Rightarrow> False)"

definition calls :: "client_event list \<Rightarrow> nat" where
  "calls evs = length (filter (\<lambda>e. case e of Called _ \<Rightarrow> True | Slept _ \<Rightarrow> False) evs)"

definition sleeps :: "client_event list \<Rightarrow> int list" where
  "sleeps evs = concat (map (\<lambda>e. case e of Called _ \<Rightarrow> [] | Slept n \<Rightarrow> [n]) evs)"

section \<open>process\_species\<close>

text \<open>
  The record that \<open>process_species\<close> returns; \<^verbatim>\<open>csv.DictWriter.writerow\<close> writes its four
  fields in this order.
\<close>

record row =
  number :: int
  scientific_name :: ustr
  english_common_name :: ustr
  japanese_common_name :: ustr

text \<open>
  Lines 139-156. The two calls of \<open>get_common_name\<close> take the defaults of \<^verbatim>\<open>model\<close> and
  \<^verbatim>\<open>max_retries\<close>; \<^verbatim>\<open>asyncio.gather\<close> returns their labels in the order of its arguments.
\<close>

definition process_species :: "service \<Rightarrow> int \<Rightarrow> ustr \<Rightarrow> ustr \<Rightarrow> ustr \<Rightarrow> row" where
  "process_species svc line_number species en_prompt_template ja_prompt_template =
     \<lparr>number = line_number,
      scientific_name = species,
      english_common_name =
        fst (get_common_name svc species en_prompt_template gpt_4o (ascii ''en'') 10),
      japanese_common_name =
        fst (get_common_name svc species ja_prompt_template gpt_4o (ascii ''ja'') 10)\<rparr>"

section \<open>process\_and\_save\_batch\<close>

text \<open>
  What the scheduler does not decide is a parameter of the model:
  \<^item> \<open>service_of n\<close>: the answers of the completion service to the calls made for the item
    with ordinal \<open>n\<close>;
  \<^item> \<open>finish_time n\<close>: when the task of ordinal \<open>n\<close> completes. \<^verbatim>\<open>asyncio.gather\<close> returns the
    results in the order of its arguments whatever the order of completion is. The model
    is more liberal and hands the results of a batch to the scheduler in the order of
    completion, so that what is proved holds for every order of arrival, the order of
    the arguments included (a \<open>finish_time\<close> that grows with the ordinal);
  \<^item> \<open>cancelled i\<close>: whether the await of the batch that starts at task index \<open>i\<close> ends in
    \<^verbatim>\<open>asyncio.CancelledError\<close> (an interrupt of the run), which no handler of the program
    catches.
\<close>

record env =
  service_of :: "int \<Rightarrow> service"
  finish_time :: "int \<Rightarrow> nat"
  cancelled :: "nat \<Rightarrow> bool"

text \<open>
  The output file is absent or holds a list of records. The serialisation of a record by
  the \<^verbatim>\<open>csv\<close> module is not modelled: a record is the header with its field names or a
  data row.
\<close>

datatype csv_record = Header "ustr list" | Data row

type_synonym csv_file = "csv_record list option"

datatype file_mode = W | A

definition fieldnames :: "ustr list" where
  "fieldnames =
     [ascii ''number'', ascii ''scientific_name'', ascii ''english_common_name'',
      ascii ''japanese_common_name'']"

text \<open>
  \<^verbatim>\<open>open(output_path, file_mode)\<close>: the content that the writes of the run are appended to.
  Mode \<^verbatim>\<open>'w'\<close> creates or truncates, mode \<^verbatim>\<open>'a'\<close> creates or keeps. A failure of \<^verbatim>\<open>open\<close>
  (permissions, a missing directory) is outside the model.
\<close>

fun py_open :: "csv_file \<Rightarrow> file_mode \<Rightarrow> csv_record list" where
  "py_open f W = []"
| "py_open None A = []"
| "py_open (Some content) A = content"

text \<open>
  What the scheduler does to the sink, in order: an item has produced its result, a
  record is written, the file is flushed, the scheduler sleeps between two batches.
\<close>

datatype sink_event = Enriched int | Wrote csv_record | Flushed | Paused int

fun written :: "sink_event list \<Rightarrow> csv_record list" where
  "written [] = []"
| "written (Wrote r # evs) = r # written evs"
| "written (e # evs) = written evs"

fun data_rows :: "csv_record list \<Rightarrow> row list" where
  "data_rows [] = []"
| "data_rows (Data r # rs) = r # data_rows rs"
| "data_rows (Header h # rs) = data_rows rs"

text \<open>
  Lines 164-168: one task per index of \<^verbatim>\<open>range(start_line - 1, end_line)\<close>, with the
  indexing of Python; the first index out of range raises IndexError.
\<close>

fun make_tasks :: "ustr list \<Rightarrow> int list \<Rightarrow> py_error + (int \<times> ustr) list" where
  "make_tasks species_list [] = Inr []"
| "make_tasks species_list (i # indices) =
     (case py_index species_list i of
        Inl e \<Rightarrow> Inl e
      | Inr species \<Rightarrow>
          (case make_tasks species_list indices of
             Inl e \<Rightarrow> Inl e
           | Inr tasks \<Rightarrow> Inr ((i + 1, species) # tasks)))"

text \<open>
  Lines 181-192 for one batch: the results arrive, are sorted by \<^verbatim>\<open>number\<close> (the sort of
  Python is stable, as \<open>sort_key\<close> is), are written row by row, and the file is flushed.
\<close>

definition enrich_batch :: "env \<Rightarrow> ustr \<Rightarrow> ustr \<Rightarrow> (int \<times> ustr) list \<Rightarrow> row list" where
  "enrich_batch e en_prompt_template ja_prompt_template batch =
     sort_key (\<lambda>r. finish_time e (number r))
       (map (\<lambda>(line_number, species).
               process_species (service_of e line_number) line_number species
                 en_prompt_template ja_prompt_template) batch)"

definition save_batch :: "row list \<Rightarrow> sink_event list" where
  "save_batch arrived =
     map (\<lambda>r. Enriched (number r)) arrived @
     map (\<lambda>r. Wrote (Data r)) (sort_key number arrived) @ [Flushed]"

text \<open>
  The loop \<^verbatim>\<open>for i in range(0, len(tasks), batch_size)\<close> (lines 180-196) from index \<open>i\<close> on,
  for a positive \<open>batch_size\<close>; the log of the sink is threaded through.
\<close>

function batch_loop ::
  "env \<Rightarrow> ustr \<Rightarrow> ustr \<Rightarrow> nat \<Rightarrow> (int \<times> ustr) list \<Rightarrow> nat \<Rightarrow> sink_event list \<Rightarrow>
   py_error option \<times> sink_event list" where
  "batch_loop e en_t ja_t batch_size tasks i log =
     (if batch_size = 0 \<or> length tasks \<le> i then (None, log)
      else if cancelled e i then (Some CancelledError, log)
      else
        (let batch = take batch_size (drop i tasks);
             saved = log @ save_batch (enrich_batch e en_t ja_t batch);
             paused = (if i + batch_size < length tasks then saved @ [Paused 2] else saved)
         in batch_loop e en_t ja_t batch_size tasks (i + batch_size) paused))"
  by pat_completeness auto
termination
  by (relation "measure (\<lambda>(e, en_t, ja_t, batch_size, tasks, i, log). length tasks - i)") auto

declare batch_loop.simps [simp del]

text \<open>
  Lines 159-196. The result is the exception that ends the run, if one does, the output
  file after the run and the log of the sink. \<^verbatim>\<open>range\<close> raises ValueError for a step of 0
  and is empty for a negative step; both happen after the file is opened and the header
  is written.
\<close>

definition process_and_save_batch ::
  "env \<Rightarrow> ustr list \<Rightarrow> int \<Rightarrow> int \<Rightarrow> ustr \<Rightarrow> ustr \<Rightarrow> csv_file \<Rightarrow> file_mode \<Rightarrow> int \<Rightarrow>
   py_error option \<times> csv_file \<times> sink_event list" where
  "process_and_save_batch e species_list start_line end_line en_prompt_template
     ja_prompt_template output file_mode batch_size =
     (case make_tasks species_list [start_line - 1..end_line - 1] of
        Inl err \<Rightarrow> (Some err, output, [])
      | Inr tasks \<Rightarrow>
          (let opened = py_open output file_mode;
               header = (if file_mode = W then [Wrote (Header fieldnames), Flushed] else [])
           in if batch_size = 0 then (Some ValueError, Some (opened @ written header), header)
              else if batch_size < 0 then (None, Some (opened @ written header), header)
              else (case batch_loop e en_prompt_template ja_prompt_template (nat batch_size)
                           tasks 0 header of
                      (err, log) \<Rightarrow> (err, Some (opened @ written log), log))))"

section \<open>main\_async\<close>

text \<open>The options of the command line: \<^verbatim>\<open>--start\<close>, \<^verbatim>\<open>--line\<close>, \<^verbatim>\<open>--batch-size\<close>.\<close>

record args =
  start :: int
  line :: "int option"
  batch_size :: int

definition default_args :: args where
  "default_args = \<lparr>start = 1, line = None, batch_size = 10\<rparr>"

text \<open>
  Lines 226-240: the file mode and the range of a run. \<^verbatim>\<open>os.path.exists(output_path)\<close>
  holds when the output file is there.
\<close>

definition choose_mode :: "args \<Rightarrow> csv_file \<Rightarrow> file_mode" where
  "choose_mode a output =
     (case line a of
        Some single_line \<Rightarrow> A
      | None \<Rightarrow> if start a > 1 \<and> output \<noteq> None then A else W)"

definition choose_range :: "args \<Rightarrow> ustr list \<Rightarrow> int \<times> int" where
  "choose_range a species_list =
     (case line a of
        Some single_line \<Rightarrow> (single_line, single_line)
      | None \<Rightarrow> (start a, int (length species_list)))"

text \<open>
  Lines 199-248, with the prompt templates and the species list as they were loaded.
\<close>

definition main_async ::
  "env \<Rightarrow> args \<Rightarrow> ustr list \<Rightarrow> ustr \<Rightarrow> ustr \<Rightarrow> csv_file \<Rightarrow>
   py_error option \<times> csv_file \<times> sink_event list" where
  "main_async e a species_list en_prompt_template ja_prompt_template output =
     (case choose_range a species_list of
        (start_line, end_line) \<Rightarrow>
          process_and_save_batch e species_list start_line end_line en_prompt_template
            ja_prompt_template output (choose_mode a output) (batch_size a))"

text \<open>The rows that the tasks of a list give, in the order of the tasks.\<close>

definition rows_of :: "env \<Rightarrow> ustr \<Rightarrow> ustr \<Rightarrow> (int \<times> ustr) list \<Rightarrow> row list" where
  "rows_of e en_t ja_t tasks =
     map (\<lambda>(line_number, species).
            process_species (service_of e line_number) line_number species en_t ja_t) tasks"

text \<open>The row of the identifier with ordinal \<open>n\<close> of the species list.\<close>

definition row_at :: "env \<Rightarrow> ustr list \<Rightarrow> ustr \<Rightarrow> ustr \<Rightarrow> int \<Rightarrow> row" where
  "row_at e species_list en_t ja_t n =
     process_species (service_of e n) n (species_list ! nat (n - 1)) en_t ja_t"

text \<open>
  A concrete environment and concrete species lists, for instances of the theorems: the
  service answers every call with the prompt it was sent, tasks with greater ordinals
  complete first, and nothing is cancelled.
\<close>

definition example_env :: env where
  "example_env =
     \<lparr>service_of = (\<lambda>n req attempt. Parsed (Some (req_prompt req))),
      finish_time = (\<lambda>n. nat (100 - n)),
      cancelled = (\<lambda>i. False)\<rparr>"

definition example_species :: "ustr list" where
  "example_species = [ascii ''Panthera leo'', ascii ''Canis lupus'', ascii ''Felis catus'']"

definition ten_species :: "ustr list" where
  "ten_species = map (\<lambda>c. [83, c]) [65, 66, 67, 68, 69, 70, 71, 72, 73, 74]"

text \<open>
  The invariant of the batch loop, for tasks with the ordinals \<open>s, s + 1, ...\<close>: positions
  \<open>m\<close> and \<open>m'\<close> of the task list are in the same batch when \<open>m div batch_size\<close> and
  \<open>m' div batch_size\<close> agree. Before a row is written, every item of its batch has
  produced its result; at every flush the rows written so far are whole batches.
\<close>

definition batch_atomic :: "int \<Rightarrow> nat \<Rightarrow> nat \<Rightarrow> sink_event list \<Rightarrow> bool" where
  "batch_atomic s bs len log \<longleftrightarrow>
     (\<forall>pre r post m. log = pre @ Wrote (Data r) # post \<and> m < len \<and>
        m div bs = nat (number r - s) div bs \<longrightarrow> Enriched (s + int m) \<in> set pre) \<and>
     (\<forall>pre post. log = pre @ Flushed # post \<longrightarrow>
        (\<exists>k. length (data_rows (written pre)) = min (k * bs) len))"

text \<open>The example environment with the await of the second batch of two cancelled.\<close>

definition cancelling_env :: env where
  "cancelling_env = example_env\<lparr>cancelled := (\<lambda>i. i = 2)\<rparr>"

section \<open>csv\_to\_jsonl\<close>



















section \<open>Properties of the normalizer\<close>

lemma py_split_first: "\<exists>ps. py_split sep s = takeWhile (\<lambda>c. c \<noteq> sep) s # ps"
  by (induction s) auto

lemma py_index_split: "py_index (py_split sep s) 0 = Inr (takeWhile (\<lambda>c. c \<noteq> sep) s)"
proof -
  obtain ps where "py_split sep s = takeWhile (\<lambda>c. c \<noteq> sep) s # ps"
    using py_split_first by blast
  then show ?thesis by (simp add: py_index_def)
qed

lemma first_line_eq: "first_line s = Inr (keep_first_line s)"
  by (simp add: first_line_def keep_first_line_def py_index_split trim_def py_strip_def)

lemma match_atoms_append:
  "match_atoms ic (as @ bs) s =
     (case match_atoms ic as s of None \<Rightarrow> None | Some r \<Rightarrow> match_atoms ic bs r)"
  by (induction ic as s rule: match_atoms.induct) auto

lemma match_atoms_lits:
  "match_atoms ic (lits l) s = (if starts_with ic l s then Some (drop (length l) s) else None)"
proof (induction l arbitrary: s)
  case Nil
  then show ?case by (simp add: lits_def starts_with_def)
next
  case (Cons a l)
  then show ?case
    by (cases s) (auto simp: lits_def starts_with_def casefold_def)
qed

lemma re_sub_lits: "re_sub (lits l) ic s = drop_label ic [l] s"
  by (simp add: re_sub_def match_atoms_lits drop_label_def)

lemma casefold_False: "map (casefold False) l = l"
  by (induction l) (simp_all add: casefold_def)

lemma starts_with_exact [simp]: "starts_with False l s \<longleftrightarrow> prefix l s"
  by (simp add: starts_with_def casefold_False)

lemma re_sub_colon:
  "re_sub (lits l @ [OneOf [a, b]]) False s = drop_label False [l @ [a], l @ [b]] s"
proof (cases "prefix l s")
  case False
  then have "\<not> prefix (l @ [a]) s" "\<not> prefix (l @ [b]) s"
    by (auto dest: append_prefixD)
  with False show ?thesis
    by (simp add: re_sub_def match_atoms_append match_atoms_lits drop_label_def)
next
  case True
  then obtain r where s: "s = l @ r" by (auto simp: prefix_def)
  show ?thesis
    by (cases r) (auto simp: s re_sub_def match_atoms_append match_atoms_lits drop_label_def)
qed

lemma fold_ja_patterns:
  "fold (\<lambda>pattern s. re_sub pattern False s) ja_patterns s = remove_prefixes (ascii ''ja'') s"
  by (simp add: ja_patterns_def colon_class_def re_sub_colon remove_prefixes_def
      label_prefixes_def is_ja_def)

lemma fold_en_patterns:
  "language \<noteq> ascii ''ja'' \<Longrightarrow>
   fold (\<lambda>pattern s. re_sub pattern True s) en_patterns s = remove_prefixes language s"
  by (simp add: en_patterns_def re_sub_lits remove_prefixes_def label_prefixes_def is_ja_def)

lemma ja_quotes_set: "(\<lambda>c. c \<in> set ja_quotes) = (\<lambda>c. c \<in> quote_chars (ascii ''ja''))"
  by (auto simp: ja_quotes_def quote_chars_def is_ja_def)

lemma en_quotes_set:
  "language \<noteq> ascii ''ja'' \<Longrightarrow> (\<lambda>c. c \<in> set en_quotes) = (\<lambda>c. c \<in> quote_chars language)"
  by (auto simp: en_quotes_def quote_chars_def is_ja_def)

lemma clean_common_name_eq:
  "clean_common_name raw language = Inr (normalize_spec raw language)"
proof (cases "language = ascii ''ja''")
  case True
  then show ?thesis
    by (simp add: clean_common_name_def fold_ja_patterns first_line_eq normalize_spec_def
        py_strip_def trim_def py_strip_chars_def strip_quotes_def ja_quotes_set)
next
  case False
  then show ?thesis
    by (simp add: clean_common_name_def fold_en_patterns first_line_eq normalize_spec_def
        py_strip_def trim_def py_strip_chars_def strip_quotes_def en_quotes_set)
qed


lemma last_dropWhile_nonempty:
  "dropWhile P xs \<noteq> [] \<Longrightarrow> last (dropWhile P xs) = last xs"
  by (metis last_appendR takeWhile_dropWhile_id)

lemma dropWhile_shorter:
  "xs \<noteq> [] \<Longrightarrow> P (hd xs) \<Longrightarrow> length (dropWhile P xs) < length xs"
  by (cases xs) (simp_all add: less_Suc_eq_le length_dropWhile_le)

lemma strip_where_ends:
  assumes "strip_where P s \<noteq> []"
  shows "\<not> P (hd (strip_where P s)) \<and> \<not> P (last (strip_where P s))"
proof -
  let ?u = "dropWhile P s"
  let ?v = "dropWhile P (rev ?u)"
  from assms have v: "?v \<noteq> []" by (simp add: strip_where_def)
  have u: "?u \<noteq> []"
  proof
    assume e: "?u = []"
    from v show False unfolding e by simp
  qed
  have "\<not> P (hd ?v)" using v by (rule hd_dropWhile)
  moreover have "last ?v = last (rev ?u)" using v by (rule last_dropWhile_nonempty)
  moreover have "\<not> P (hd ?u)" using u by (rule hd_dropWhile)
  ultimately show ?thesis
    by (simp add: strip_where_def hd_rev last_rev)
qed

lemma strip_where_id:
  assumes "s = [] \<or> (\<not> P (hd s) \<and> \<not> P (last s))"
  shows "strip_where P s = s"
proof -
  from assms have "dropWhile P s = s"
    by (auto simp: dropWhile_eq_self_iff)
  moreover from assms have "dropWhile P (rev s) = rev s"
    by (auto simp: dropWhile_eq_self_iff hd_rev)
  ultimately show ?thesis by (simp add: strip_where_def)
qed

lemma length_strip_where: "length (strip_where P s) \<le> length s"
  unfolding strip_where_def
  by (metis length_dropWhile_le length_rev le_trans)

lemma strip_where_shorter:
  assumes "s \<noteq> []" "P (hd s) \<or> P (last s)"
  shows "length (strip_where P s) < length s"
proof (cases "P (hd s)")
  case True
  with assms(1) have "length (dropWhile P s) < length s" by (rule dropWhile_shorter)
  moreover have "length (strip_where P s) \<le> length (dropWhile P s)"
    using length_dropWhile_le[of P "rev (dropWhile P s)"] by (simp add: strip_where_def)
  ultimately show ?thesis by simp
next
  case False
  with assms have l: "P (last s)" by simp
  let ?u = "dropWhile P s"
  show ?thesis
  proof (cases "?u = []")
    case True
    have "strip_where P s = []" unfolding strip_where_def True by simp
    then show ?thesis using assms(1) by simp
  next
    case u: False
    then have "last ?u = last s" by (rule last_dropWhile_nonempty)
    with l u have "length (dropWhile P (rev ?u)) < length (rev ?u)"
      by (intro dropWhile_shorter) (simp_all add: hd_rev)
    moreover have "length ?u \<le> length s" by (rule length_dropWhile_le)
    ultimately show ?thesis by (simp add: strip_where_def)
  qed
qed

lemma set_strip_where: "set (strip_where P s) \<subseteq> set s"
  unfolding strip_where_def
  by (metis set_dropWhileD set_rev subsetI)

lemma strip_where_idem: "strip_where P (strip_where P s) = strip_where P s"
  by (rule strip_where_id) (use strip_where_ends in blast)

lemma length_drop_label: "length (drop_label ic alts s) \<le> length s"
proof (cases "find (\<lambda>label. starts_with ic label s) alts")
  case None
  then show ?thesis by (simp add: drop_label_def)
next
  case (Some label)
  have "length (dropWhile py_isspace (drop (length label) s)) \<le> length (drop (length label) s)"
    by (rule length_dropWhile_le)
  with Some show ?thesis by (simp add: drop_label_def)
qed

lemma drop_label_none:
  assumes "\<not> list_ex (\<lambda>label. starts_with ic label s) alts"
  shows "drop_label ic alts s = s"
proof -
  from assms have "find (\<lambda>label. starts_with ic label s) alts = None"
    by (simp add: find_None_iff list_ex_iff)
  then show ?thesis by (simp add: drop_label_def)
qed

lemma drop_label_shorter:
  assumes "list_ex (\<lambda>label. starts_with ic label s) alts" "[] \<notin> set alts"
  shows "length (drop_label ic alts s) < length s"
proof -
  from assms(1) obtain label where f: "find (\<lambda>label. starts_with ic label s) alts = Some label"
    by (cases "find (\<lambda>label. starts_with ic label s) alts") (auto simp: find_None_iff list_ex_iff)
  then have "label \<in> set alts" "starts_with ic label s"
    by (auto simp: find_Some_iff)
  with assms(2) have "label \<noteq> []" "length label \<le> length s"
    by (auto simp: starts_with_def dest: prefix_length_le)
  then have "length (drop (length label) s) < length s" by (cases label) auto
  moreover have "length (dropWhile py_isspace (drop (length label) s)) \<le> length (drop (length label) s)"
    by (rule length_dropWhile_le)
  ultimately show ?thesis using f by (simp add: drop_label_def)
qed

lemma length_fold_drop_label: "length (fold (drop_label ic) groups s) \<le> length s"
proof (induction groups arbitrary: s)
  case Nil
  show ?case by simp
next
  case (Cons g groups)
  have "length (fold (drop_label ic) groups (drop_label ic g s)) \<le> length (drop_label ic g s)"
    by (rule Cons.IH)
  also have "\<dots> \<le> length s" by (rule length_drop_label)
  finally show ?case by simp
qed

lemma fold_drop_label_none:
  "\<not> list_ex (list_ex (\<lambda>label. starts_with ic label s)) groups \<Longrightarrow>
   fold (drop_label ic) groups s = s"
  by (induction groups) (simp_all add: drop_label_none)

lemma fold_drop_label_shorter:
  assumes "list_ex (list_ex (\<lambda>label. starts_with ic label s)) groups"
    and "\<forall>g \<in> set groups. [] \<notin> set g"
  shows "length (fold (drop_label ic) groups s) < length s"
  using assms
proof (induction groups)
  case Nil
  then show ?case by simp
next
  case (Cons g groups)
  show ?case
  proof (cases "list_ex (\<lambda>label. starts_with ic label s) g")
    case True
    with Cons.prems have "length (drop_label ic g s) < length s"
      by (intro drop_label_shorter) auto
    moreover have "length (fold (drop_label ic) groups (drop_label ic g s))
        \<le> length (drop_label ic g s)"
      by (rule length_fold_drop_label)
    ultimately show ?thesis by simp
  next
    case False
    with Cons show ?thesis by (simp add: drop_label_none)
  qed
qed

lemma label_prefixes_nonempty: "\<forall>g \<in> set (label_prefixes language). [] \<notin> set g"
  by (simp add: label_prefixes_def ascii_def)

lemma length_keep_first_line: "length (keep_first_line s) \<le> length s"
proof -
  have "length (trim (takeWhile (\<lambda>c. c \<noteq> nl) s)) \<le> length (takeWhile (\<lambda>c. c \<noteq> nl) s)"
    unfolding trim_def by (rule length_strip_where)
  also have "\<dots> \<le> length s" by (rule length_takeWhile_le)
  finally show ?thesis by (simp add: keep_first_line_def)
qed

lemma nl_keep_first_line: "nl \<notin> set (keep_first_line s)"
proof (cases "nl \<in> set s")
  case True
  have "set (trim (takeWhile (\<lambda>c. c \<noteq> nl) s)) \<subseteq> set (takeWhile (\<lambda>c. c \<noteq> nl) s)"
    unfolding trim_def by (rule set_strip_where)
  then have "nl \<notin> set (trim (takeWhile (\<lambda>c. c \<noteq> nl) s))"
    by (auto dest: set_takeWhileD)
  with True show ?thesis by (simp add: keep_first_line_def)
next
  case False
  then show ?thesis by (simp add: keep_first_line_def)
qed

lemma nl_normalize_spec: "nl \<notin> set (normalize_spec raw language)"
proof -
  have "set (normalize_spec raw language)
      \<subseteq> set (keep_first_line (remove_prefixes language (trim raw)))"
    unfolding normalize_spec_def trim_def strip_quotes_def
    by (meson set_strip_where subset_trans)
  then show ?thesis using nl_keep_first_line by blast
qed

lemma trim_normalize_spec: "trim (normalize_spec raw language) = normalize_spec raw language"
  by (simp add: normalize_spec_def trim_def strip_where_idem)

lemma normalize_spec_fixed_iff:
  assumes y: "y = normalize_spec raw language"
  shows "normalize_spec y language = y \<longleftrightarrow>
           \<not> begins_with_label language y \<and> \<not> quoted_end language y"
proof -
  have t: "trim y = y" by (simp add: y trim_normalize_spec)
  have n: "nl \<notin> set y" by (simp add: y nl_normalize_spec)
  let ?p = "remove_prefixes language y"
  let ?k = "keep_first_line ?p"
  let ?q = "strip_quotes language ?k"
  have "normalize_spec y language = trim ?q"
    by (simp add: normalize_spec_def t)
  then have "length (normalize_spec y language) \<le> length ?q"
    by (simp add: trim_def length_strip_where)
  moreover have "length ?q \<le> length ?k"
    by (simp add: strip_quotes_def length_strip_where)
  moreover have "length ?k \<le> length ?p"
    by (rule length_keep_first_line)
  moreover have "length ?p \<le> length y"
    by (simp add: remove_prefixes_def length_fold_drop_label)
  ultimately have len: "length (normalize_spec y language) \<le> length ?q"
    "length ?q \<le> length ?k" "length ?k \<le> length ?p" "length ?p \<le> length y"
    by simp_all
  show ?thesis
  proof (cases "begins_with_label language y")
    case True
    then have "length ?p < length y"
      unfolding begins_with_label_def remove_prefixes_def
      by (rule fold_drop_label_shorter) (rule label_prefixes_nonempty)
    with len have "length (normalize_spec y language) < length y" by simp
    with True show ?thesis by auto
  next
    case False
    then have p: "?p = y"
      unfolding begins_with_label_def remove_prefixes_def by (rule fold_drop_label_none)
    with n have k: "?k = y" by (simp add: keep_first_line_def)
    show ?thesis
    proof (cases "quoted_end language y")
      case True
      then have "length (strip_quotes language y) < length y"
        unfolding strip_quotes_def quoted_end_def by (intro strip_where_shorter) auto
      with len p k have "length (normalize_spec y language) < length y" by simp
      with True show ?thesis by auto
    next
      case q: False
      then have "strip_quotes language y = y"
        unfolding strip_quotes_def quoted_end_def by (intro strip_where_id) auto
      with p k t have "normalize_spec y language = y" by (simp add: normalize_spec_def)
      with False q show ?thesis by simp
    qed
  qed
qed

lemma length_normalize_spec: "length (normalize_spec raw language) \<le> length (trim raw)"
proof -
  let ?p = "remove_prefixes language (trim raw)"
  let ?k = "keep_first_line ?p"
  let ?q = "strip_quotes language ?k"
  have "length (normalize_spec raw language) \<le> length ?q"
    by (simp add: normalize_spec_def trim_def length_strip_where)
  also have "\<dots> \<le> length ?k"
    by (simp add: strip_quotes_def length_strip_where)
  also have "\<dots> \<le> length ?p"
    by (rule length_keep_first_line)
  also have "\<dots> \<le> length (trim raw)"
    by (simp add: remove_prefixes_def length_fold_drop_label)
  finally show ?thesis .
qed

lemma trim_all_space:
  assumes "list_all py_isspace raw"
  shows "trim raw = []"
proof -
  from assms have e: "dropWhile py_isspace raw = []"
    by (simp add: list_all_iff)
  show ?thesis unfolding trim_def strip_where_def e by simp
qed

text \<open>
  C8. For every input string and every language argument, \<open>clean_common_name\<close> returns a
  value, never an exception, and the value is the composition of the five steps in the
  order of the specification: trim, remove the leading prefixes, keep the first line and
  trim it, strip the quote characters, trim. An empty input and an input of white space
  only give the empty string.
\<close>

theorem clean_common_name_composition:
  "clean_common_name raw language =
     Inr (trim (strip_quotes language
                 (keep_first_line (remove_prefixes language (trim raw))))) \<and>
   (list_all py_isspace raw \<longrightarrow> clean_common_name raw language = Inr [])"
proof -
  have "list_all py_isspace raw \<longrightarrow> normalize_spec raw language = []"
    using length_normalize_spec[of raw language] by (auto simp: trim_all_space)
  then show ?thesis
    by (simp add: clean_common_name_eq normalize_spec_def)
qed

theorem clean_common_name_composition_witness:
  "list_all py_isspace [32, 10, 0x3000] \<and>
   clean_common_name [32, 10, 0x3000] (ascii ''ja'') = Inr [] \<and>
   clean_common_name [] (ascii ''en'') = Inr [] \<and>
   trim (strip_quotes (ascii ''en'') (keep_first_line (remove_prefixes (ascii ''en'')
     (trim (ascii '' common NAME:  '' @ [0x22] @ ascii ''Lion'' @ [0x22, 10] @ ascii ''a big cat''))))) =
     ascii ''Lion'' \<and>
   clean_common_name
     (ascii '' common NAME:  '' @ [0x22] @ ascii ''Lion'' @ [0x22, 10] @ ascii ''a big cat'')
     (ascii ''en'') = Inr (ascii ''Lion'')"
proof -
  have sp: "list_all py_isspace [32, 10, 0x3000]"
    by (simp add: py_isspace_def)
  have ev: "clean_common_name
     (ascii '' common NAME:  '' @ [0x22] @ ascii ''Lion'' @ [0x22, 10] @ ascii ''a big cat'')
     (ascii ''en'') = Inr (ascii ''Lion'')"
    by (simp add: clean_defs)
  from sp clean_common_name_composition[of "[32, 10, 0x3000]" "ascii ''ja''"]
  have w1: "clean_common_name [32, 10, 0x3000] (ascii ''ja'') = Inr []"
    by blast
  have "list_all py_isspace []"
    by simp
  with clean_common_name_composition[of "[]" "ascii ''en''"]
  have w2: "clean_common_name [] (ascii ''en'') = Inr []"
    by blast
  from clean_common_name_composition[of
        "ascii '' common NAME:  '' @ [0x22] @ ascii ''Lion'' @ [0x22, 10] @ ascii ''a big cat''"
        "ascii ''en''"]
  have w3: "trim (strip_quotes (ascii ''en'') (keep_first_line (remove_prefixes (ascii ''en'')
     (trim (ascii '' common NAME:  '' @ [0x22] @ ascii ''Lion'' @ [0x22, 10] @ ascii ''a big cat''))))) =
     ascii ''Lion''"
    unfolding ev by (elim conjE) (simp only: sum.inject)
  from sp w1 w2 w3 ev show ?thesis by blast
qed

text \<open>
  C7, as stated, fails: the normalizer removes one leading prefix of each kind and one
  layer of quotes, so a label whose normalised form still begins with a prefix is
  changed again by a second pass. \<^verbatim>\<open>"Name: Name: Lion"\<close> becomes \<^verbatim>\<open>"Name: Lion"\<close>, which
  becomes \<^verbatim>\<open>"Lion"\<close>.
\<close>

theorem clean_twice_counterexample:
  "clean_common_name (ascii ''Name: Name: Lion'') (ascii ''en'') = Inr (ascii ''Name: Lion'') \<and>
   clean_twice (ascii ''Name: Name: Lion'') (ascii ''en'') = Inr (ascii ''Lion'') \<and>
   clean_twice (ascii ''Name: Name: Lion'') (ascii ''en'') \<noteq>
     clean_common_name (ascii ''Name: Name: Lion'') (ascii ''en'')"
  by (simp add: clean_twice_def clean_defs)

text \<open>
  C7, amended. Normalizing twice gives the same as normalizing once exactly when the
  normalised label neither begins with one of the language's label prefixes nor begins
  or ends with one of the language's quote characters.
\<close>

theorem clean_twice_fixed_iff:
  assumes "clean_common_name x language = Inr y"
  shows "clean_twice x language = clean_common_name x language \<longleftrightarrow>
           \<not> begins_with_label language y \<and> \<not> quoted_end language y"
proof -
  from assms have y: "y = normalize_spec x language"
    by (simp add: clean_common_name_eq)
  have "clean_twice x language = Inr (normalize_spec y language)"
    by (simp add: clean_twice_def clean_common_name_eq y)
  then have "clean_twice x language = clean_common_name x language \<longleftrightarrow>
      normalize_spec y language = y"
    by (simp add: assms)
  with normalize_spec_fixed_iff[OF y] show ?thesis by simp
qed

theorem clean_twice_fixed_iff_witness:
  "clean_common_name (ascii '' name: Lion '') (ascii ''en'') = Inr (ascii ''Lion'') \<and>
   \<not> begins_with_label (ascii ''en'') (ascii ''Lion'') \<and>
   \<not> quoted_end (ascii ''en'') (ascii ''Lion'') \<and>
   clean_twice (ascii '' name: Lion '') (ascii ''en'') =
     clean_common_name (ascii '' name: Lion '') (ascii ''en'')"
proof -
  have ev: "clean_common_name (ascii '' name: Lion '') (ascii ''en'') = Inr (ascii ''Lion'')"
    by (simp add: clean_defs)
  have nb: "\<not> begins_with_label (ascii ''en'') (ascii ''Lion'')"
    by (simp add: begins_with_label_def label_prefixes_def is_ja_def starts_with_def
        casefold_def ascii_lower_def ascii_def)
  have nq: "\<not> quoted_end (ascii ''en'') (ascii ''Lion'')"
    by (simp add: quoted_end_def quote_chars_def is_ja_def ascii_def)
  from clean_twice_fixed_iff[OF ev] nb nq ev show ?thesis by simp
qed

section \<open>Properties of get\_common\_name\<close>

lemma attempts_throttled_prefix:
  assumes "\<forall>a \<in> set as. rate_limited (svc req a) \<and> a \<noteq> max_retries - 1"
  shows "attempts svc req language max_retries (as @ rest) =
           (fst (attempts svc req language max_retries rest),
            throttled req (map (\<lambda>a. a + 1) as) @ snd (attempts svc req language max_retries rest))"
  using assms
proof (induction as)
  case Nil
  show ?case by (simp add: throttled_def)
next
  case (Cons a as)
  from Cons.prems obtain msg where m: "svc req a = Raised msg" "is_rate_limit msg"
    by (auto simp: rate_limited_def split: outcome.splits)
  from Cons.prems have n: "a \<noteq> max_retries - 1" by simp
  from Cons have IH: "attempts svc req language max_retries (as @ rest) =
           (fst (attempts svc req language max_retries rest),
            throttled req (map (\<lambda>a. a + 1) as) @ snd (attempts svc req language max_retries rest))"
    by simp
  show ?case
    using m n by (simp add: IH try_body_def throttled_def)
qed

lemma map_succ_upto: "map (\<lambda>a. a + 1) [i..j] = [i + 1..j + 1]"
  by (rule nth_equalityI) auto

lemma throttled_append: "throttled req (xs @ ys) = throttled req xs @ throttled req ys"
  by (simp add: throttled_def)

lemma sentinel_clean: "clean_common_name sentinel language = Inr sentinel"
  by (cases "language = ascii ''ja''") (simp_all add: clean_defs sentinel_def)

lemma normalize_spec_sentinel: "normalize_spec sentinel language = sentinel"
  using sentinel_clean[of language] by (simp add: clean_common_name_eq)

lemma get_common_name_reaches:
  assumes "0 \<le> k" "k < max_retries"
    and "\<forall>j. 0 \<le> j \<and> j < k \<longrightarrow> rate_limited (svc (build_request species template model language) j)"
  shows "get_common_name svc species template model language max_retries =
           (fst (attempts svc (build_request species template model language) language max_retries
                   (k # [k + 1..max_retries - 1])),
            throttled (build_request species template model language) [1..k] @
            snd (attempts svc (build_request species template model language) language max_retries
                   (k # [k + 1..max_retries - 1])))"
proof -
  let ?req = "build_request species template model language"
  from assms(1,2) have split: "[0..max_retries - 1] = [0..k - 1] @ k # [k + 1..max_retries - 1]"
    by (intro upto_split3) simp_all
  from assms have "\<forall>a \<in> set [0..k - 1]. rate_limited (svc ?req a) \<and> a \<noteq> max_retries - 1"
    by auto
  then have "attempts svc ?req language max_retries ([0..k - 1] @ k # [k + 1..max_retries - 1]) =
      (fst (attempts svc ?req language max_retries (k # [k + 1..max_retries - 1])),
       throttled ?req (map (\<lambda>a. a + 1) [0..k - 1]) @
       snd (attempts svc ?req language max_retries (k # [k + 1..max_retries - 1])))"
    by (rule attempts_throttled_prefix)
  then show ?thesis
    by (simp add: get_common_name_def split map_succ_upto)
qed



lemma calls_append: "calls (xs @ ys) = calls xs + calls ys"
  by (simp add: calls_def)

lemma sleeps_append: "sleeps (xs @ ys) = sleeps xs @ sleeps ys"
  by (simp add: sleeps_def)

lemma calls_throttled: "calls (throttled req ns) = length ns"
  by (induction ns) (simp_all add: calls_def throttled_def)

lemma sleeps_throttled: "sleeps (throttled req ns) = map (\<lambda>n. 10 * n) ns"
  by (induction ns) (simp_all add: sleeps_def throttled_def)

text \<open>
  C4. When every call of the service raises an error that is classified as rate limit,
  \<open>get_common_name\<close> calls the service \<open>max_retries\<close> times (10 by default, as in the instance that follows),
  sleeps \<open>10 * n\<close> after the \<open>n\<close>-th call, the last one included, and returns the sentinel
  label as a value.
\<close>

theorem get_common_name_always_rate_limited:
  assumes "\<forall>attempt. rate_limited (svc (build_request species template model language) attempt)"
  shows "get_common_name svc species template model language max_retries =
           (sentinel, throttled (build_request species template model language) [1..max_retries]) \<and>
         calls (snd (get_common_name svc species template model language max_retries)) =
           nat max_retries \<and>
         sleeps (snd (get_common_name svc species template model language max_retries)) =
           map (\<lambda>attempt_number. 10 * attempt_number) [1..max_retries]"
proof -
  let ?req = "build_request species template model language"
  have main: "get_common_name svc species template model language max_retries =
      (sentinel, throttled ?req [1..max_retries])"
  proof (cases "max_retries \<le> 0")
    case True
    then show ?thesis by (simp add: get_common_name_def throttled_def)
  next
    case False
    let ?k = "max_retries - 1"
    from assms have "rate_limited (svc ?req ?k)" by simp
    then obtain msg where m: "svc ?req ?k = Raised msg" "is_rate_limit msg"
      by (cases "svc ?req ?k") (simp_all add: rate_limited_def)
    have last: "attempts svc ?req language max_retries (?k # [?k + 1..max_retries - 1]) =
        (sentinel, [Called ?req, Slept (10 * max_retries)])"
      using m by (simp add: try_body_def)
    from False have "[1..max_retries] = [1..?k] @ [max_retries]"
      by (intro upto_rec2) simp
    then have t: "throttled ?req [1..max_retries] =
        throttled ?req [1..?k] @ [Called ?req, Slept (10 * max_retries)]"
      by (simp add: throttled_append) (simp add: throttled_def)
    from False assms have "get_common_name svc species template model language max_retries =
        (fst (attempts svc ?req language max_retries (?k # [?k + 1..max_retries - 1])),
         throttled ?req [1..?k] @
         snd (attempts svc ?req language max_retries (?k # [?k + 1..max_retries - 1])))"
      by (intro get_common_name_reaches) simp_all
    then show ?thesis unfolding last t by simp
  qed
  show ?thesis
    unfolding main by (simp add: calls_throttled sleeps_throttled)
qed


theorem get_common_name_always_rate_limited_witness:
  "get_common_name (\<lambda>req attempt. Raised (ascii ''Error code: 429'')) (ascii ''Canis lupus'')
     (ascii ''[species]'') gpt_4o (ascii ''ja'') 10 =
     (sentinel,
      throttled (build_request (ascii ''Canis lupus'') (ascii ''[species]'') gpt_4o (ascii ''ja''))
        [1, 2, 3, 4, 5, 6, 7, 8, 9, 10]) \<and>
   calls (snd (get_common_name (\<lambda>req attempt. Raised (ascii ''Error code: 429''))
     (ascii ''Canis lupus'') (ascii ''[species]'') gpt_4o (ascii ''ja'') 10)) = 10 \<and>
   sleeps (snd (get_common_name (\<lambda>req attempt. Raised (ascii ''Error code: 429''))
     (ascii ''Canis lupus'') (ascii ''[species]'') gpt_4o (ascii ''ja'') 10)) =
     [10, 20, 30, 40, 50, 60, 70, 80, 90, 100]"
proof -
  have "is_rate_limit (ascii ''Error code: 429'')"
    by (simp add: is_rate_limit_def ascii_def sublist_code)
  then have h: "\<forall>attempt. rate_limited ((\<lambda>req attempt. Raised (ascii ''Error code: 429''))
      (build_request (ascii ''Canis lupus'') (ascii ''[species]'') gpt_4o (ascii ''ja'')) attempt)"
    by (simp add: rate_limited_def)
  from get_common_name_always_rate_limited[
      where svc = "\<lambda>req attempt. Raised (ascii ''Error code: 429'')"
        and species = "ascii ''Canis lupus''" and template = "ascii ''[species]''"
        and model = gpt_4o and language = "ascii ''ja''" and max_retries = 10, OF h]
  show ?thesis
    by (simp add: upto.simps calls_throttled sleeps_throttled)
qed

text \<open>
  C5. When attempt \<open>k\<close> (counted from 0) is reached, that is when all attempts before it
  met the rate limit, and its call raises an error whose message has neither \<^verbatim>\<open>429\<close> nor
  \<^verbatim>\<open>rate_limit\<close> in it, \<open>get_common_name\<close> returns the sentinel label: that call is the last
  event, no sleep and no call follows it, whatever \<open>k\<close> is.
\<close>

theorem get_common_name_other_error:
  assumes "0 \<le> k" "k < max_retries"
    and "\<forall>j. 0 \<le> j \<and> j < k \<longrightarrow>
           rate_limited (svc (build_request species template model language) j)"
    and "svc (build_request species template model language) k = Raised error_message"
    and "\<not> is_rate_limit error_message"
  shows "get_common_name svc species template model language max_retries =
           (sentinel,
            throttled (build_request species template model language) [1..k] @
            [Called (build_request species template model language)]) \<and>
         calls (snd (get_common_name svc species template model language max_retries)) =
           nat k + 1"
proof -
  let ?req = "build_request species template model language"
  have "attempts svc ?req language max_retries (k # [k + 1..max_retries - 1]) =
      (sentinel, [Called ?req])"
    using assms(4,5) by (simp add: try_body_def)
  moreover from assms(1,2,3)
  have "get_common_name svc species template model language max_retries =
      (fst (attempts svc ?req language max_retries (k # [k + 1..max_retries - 1])),
       throttled ?req [1..k] @
       snd (attempts svc ?req language max_retries (k # [k + 1..max_retries - 1])))"
    by (rule get_common_name_reaches)
  ultimately have main: "get_common_name svc species template model language max_retries =
      (sentinel, throttled ?req [1..k] @ [Called ?req])"
    by simp
  show ?thesis
    unfolding main using assms(1) by (simp add: calls_append calls_throttled) (simp add: calls_def)
qed

theorem get_common_name_other_error_witness:
  "get_common_name
     (\<lambda>req attempt. if attempt < 2 then Raised (ascii ''Rate_Limit reached'')
                     else Raised (ascii ''Connection error''))
     (ascii ''Canis lupus'') (ascii ''[species]'') gpt_4o (ascii ''en'') 10 =
     (sentinel,
      [Called (build_request (ascii ''Canis lupus'') (ascii ''[species]'') gpt_4o (ascii ''en'')),
       Slept 10,
       Called (build_request (ascii ''Canis lupus'') (ascii ''[species]'') gpt_4o (ascii ''en'')),
       Slept 20,
       Called (build_request (ascii ''Canis lupus'') (ascii ''[species]'') gpt_4o (ascii ''en''))])"
proof -
  let ?svc = "\<lambda>(req::request) (attempt::int). if attempt < 2 then Raised (ascii ''Rate_Limit reached'')
                     else Raised (ascii ''Connection error'')"
  let ?req = "build_request (ascii ''Canis lupus'') (ascii ''[species]'') gpt_4o (ascii ''en'')"
  have r: "is_rate_limit (ascii ''Rate_Limit reached'')"
    by (simp add: is_rate_limit_def ascii_def sublist_code py_lower_def ascii_lower_def)
  have n: "\<not> is_rate_limit (ascii ''Connection error'')"
    by (simp add: is_rate_limit_def ascii_def sublist_code py_lower_def ascii_lower_def)
  have h: "\<forall>j. 0 \<le> j \<and> j < 2 \<longrightarrow> rate_limited (?svc ?req j)"
    using r by (simp add: rate_limited_def)
  have e: "?svc ?req 2 = Raised (ascii ''Connection error'')"
    by simp
  from get_common_name_other_error[where k = 2 and max_retries = 10 and svc = ?svc
      and species = "ascii ''Canis lupus''" and template = "ascii ''[species]''"
      and model = gpt_4o and language = "ascii ''en''", OF _ _ h e n]
  show ?thesis
    by (simp add: throttled_def upto.simps)
qed

text \<open>
  C6. When the call of attempt \<open>k\<close> answers, \<open>get_common_name\<close> returns from that attempt
  and calls the service no more. Without a parsed payload the label is the sentinel;
  with a payload the label is the result of \<open>clean_common_name\<close> on the extracted field.
\<close>

theorem get_common_name_parsed:
  assumes "0 \<le> k" "k < max_retries"
    and "\<forall>j. 0 \<le> j \<and> j < k \<longrightarrow>
           rate_limited (svc (build_request species template model language) j)"
    and "svc (build_request species template model language) k = Parsed parsed_response"
  shows "(case parsed_response of
            None \<Rightarrow> fst (get_common_name svc species template model language max_retries) = sentinel
          | Some field \<Rightarrow>
              clean_common_name field language =
                Inr (fst (get_common_name svc species template model language max_retries))) \<and>
         snd (get_common_name svc species template model language max_retries) =
           throttled (build_request species template model language) [1..k] @
           [Called (build_request species template model language)] \<and>
         calls (snd (get_common_name svc species template model language max_retries)) =
           nat k + 1"
proof -
  let ?req = "build_request species template model language"
  let ?label = "case parsed_response of None \<Rightarrow> sentinel
    | Some field \<Rightarrow> normalize_spec field language"
  have "attempts svc ?req language max_retries (k # [k + 1..max_retries - 1]) =
      (?label, [Called ?req])"
    using assms(4)
    by (cases parsed_response)
      (simp_all add: try_body_def clean_common_name_eq normalize_spec_sentinel)
  moreover from assms(1,2,3)
  have "get_common_name svc species template model language max_retries =
      (fst (attempts svc ?req language max_retries (k # [k + 1..max_retries - 1])),
       throttled ?req [1..k] @
       snd (attempts svc ?req language max_retries (k # [k + 1..max_retries - 1])))"
    by (rule get_common_name_reaches)
  ultimately have main: "get_common_name svc species template model language max_retries =
      (?label, throttled ?req [1..k] @ [Called ?req])"
    by simp
  have "calls (throttled ?req [1..k] @ [Called ?req]) = nat k + 1"
    using assms(1) by (simp add: calls_append calls_throttled) (simp add: calls_def)
  then show ?thesis
    unfolding main by (cases parsed_response) (simp_all add: clean_common_name_eq)
qed

theorem get_common_name_parsed_witness:
  "get_common_name
     (\<lambda>req attempt. if attempt < 1 then Raised (ascii ''429 Too Many Requests'') else Parsed None)
     (ascii ''Canis lupus'') (ascii ''[species]'') gpt_4o (ascii ''en'') 10 =
     (sentinel,
      [Called (build_request (ascii ''Canis lupus'') (ascii ''[species]'') gpt_4o (ascii ''en'')),
       Slept 10,
       Called (build_request (ascii ''Canis lupus'') (ascii ''[species]'') gpt_4o (ascii ''en''))]) \<and>
   get_common_name (\<lambda>req attempt. Parsed (Some (ascii '' Name: Wolf '')))
     (ascii ''Canis lupus'') (ascii ''[species]'') gpt_4o (ascii ''en'') 10 =
     (ascii ''Wolf'',
      [Called (build_request (ascii ''Canis lupus'') (ascii ''[species]'') gpt_4o (ascii ''en''))])"
proof -
  let ?svc = "\<lambda>(req::request) (attempt::int).
    if attempt < 1 then Raised (ascii ''429 Too Many Requests'') else Parsed None"
  let ?ok = "\<lambda>(req::request) (attempt::int). Parsed (Some (ascii '' Name: Wolf ''))"
  let ?req = "build_request (ascii ''Canis lupus'') (ascii ''[species]'') gpt_4o (ascii ''en'')"
  have r: "is_rate_limit (ascii ''429 Too Many Requests'')"
    by (simp add: is_rate_limit_def ascii_def sublist_code)
  have h: "\<forall>j. 0 \<le> j \<and> j < 1 \<longrightarrow> rate_limited (?svc ?req j)"
    using r by (simp add: rate_limited_def)
  have e: "?svc ?req 1 = Parsed None"
    by simp
  have h': "\<forall>j. 0 \<le> j \<and> j < 0 \<longrightarrow> rate_limited (?ok ?req j)"
    by auto
  have e': "?ok ?req 0 = Parsed (Some (ascii '' Name: Wolf ''))"
    by simp
  have c: "clean_common_name (ascii '' Name: Wolf '') (ascii ''en'') = Inr (ascii ''Wolf'')"
    by (simp add: clean_defs)
  from get_common_name_parsed[where k = 1 and max_retries = 10 and svc = ?svc
      and species = "ascii ''Canis lupus''" and template = "ascii ''[species]''"
      and model = gpt_4o and language = "ascii ''en''", OF _ _ h e]
  have w1: "get_common_name ?svc (ascii ''Canis lupus'') (ascii ''[species]'') gpt_4o (ascii ''en'') 10 =
      (sentinel, [Called ?req, Slept 10, Called ?req])"
    by (simp add: throttled_def prod_eq_iff upto.simps)
  from get_common_name_parsed[where k = 0 and max_retries = 10 and svc = ?ok
      and species = "ascii ''Canis lupus''" and template = "ascii ''[species]''"
      and model = gpt_4o and language = "ascii ''en''", OF _ _ h' e']
  have w2: "get_common_name ?ok (ascii ''Canis lupus'') (ascii ''[species]'') gpt_4o (ascii ''en'') 10 =
      (ascii ''Wolf'', [Called ?req])"
    using c by (simp add: throttled_def prod_eq_iff upto.simps)
  from w1 w2 show ?thesis by simp
qed

section \<open>Properties of the scheduler\<close>

lemma make_tasks_valid:
  assumes "\<forall>i \<in> set indices. 0 \<le> i \<and> i < int (length species_list)"
  shows "make_tasks species_list indices =
           Inr (map (\<lambda>i. (i + 1, species_list ! nat i)) indices)"
  using assms by (induction indices) (simp_all add: py_index_def)

lemma upto_shift: "[i - 1..j - 1] = map (\<lambda>n. n - 1) [i..j]"
  by (rule nth_equalityI) auto

lemma make_tasks_range:
  assumes "1 \<le> start_line" "end_line \<le> int (length species_list)"
  shows "make_tasks species_list [start_line - 1..end_line - 1] =
           Inr (map (\<lambda>n. (n, species_list ! nat (n - 1))) [start_line..end_line])"
proof -
  from assms have "\<forall>i \<in> set [start_line - 1..end_line - 1]. 0 \<le> i \<and> i < int (length species_list)"
    by auto
  then have "make_tasks species_list [start_line - 1..end_line - 1] =
      Inr (map (\<lambda>i. (i + 1, species_list ! nat i)) [start_line - 1..end_line - 1])"
    by (rule make_tasks_valid)
  then show ?thesis
    by (simp add: upto_shift comp_def)
qed

lemma number_process_species [simp]:
  "number (process_species svc line_number species en_t ja_t) = line_number"
  by (simp add: process_species_def)

lemma number_rows_of: "map number (rows_of e en_t ja_t tasks) = map fst tasks"
  by (simp add: rows_of_def case_prod_unfold)

lemma sort_key_restores:
  fixes f :: "'a \<Rightarrow> 'k::linorder"
  assumes "sorted_wrt (<) (map f xs)" and "set ys = set xs" and "length ys = length xs"
  shows "sort_key f ys = xs"
proof -
  from assms(1) have sx: "sorted (map f xs)" and dx: "distinct (map f xs)"
    by (simp_all add: strict_sorted_iff)
  from dx have inj: "inj_on f (set xs)" and dxs: "distinct xs"
    by (simp_all add: distinct_map)
  from dxs assms(2,3) have dys: "distinct ys"
    by (metis card_distinct distinct_card)
  have "map f (sort_key f ys) = map f xs"
  proof (rule sorted_distinct_set_unique)
    show "sorted (map f (sort_key f ys))" by (rule sorted_sort_key)
    show "distinct (map f (sort_key f ys))"
      using dys inj assms(2) by (simp add: distinct_map)
    show "sorted (map f xs)" by (rule sx)
    show "distinct (map f xs)" by (rule dx)
    show "set (map f (sort_key f ys)) = set (map f xs)"
      using assms(2) by simp
  qed
  then show ?thesis
    using inj assms(2) by (intro map_inj_on[of f]) (auto intro: inj_on_subset)
qed

lemma sorted_enrich_batch:
  assumes "sorted_wrt (<) (map fst batch)"
  shows "sort_key number (enrich_batch e en_t ja_t batch) = rows_of e en_t ja_t batch"
proof (rule sort_key_restores)
  show "sorted_wrt (<) (map number (rows_of e en_t ja_t batch))"
    using assms by (simp add: number_rows_of)
  show "set (enrich_batch e en_t ja_t batch) = set (rows_of e en_t ja_t batch)"
    by (simp add: enrich_batch_def rows_of_def)
  show "length (enrich_batch e en_t ja_t batch) = length (rows_of e en_t ja_t batch)"
    by (simp add: enrich_batch_def rows_of_def)
qed

lemma written_append [simp]: "written (xs @ ys) = written xs @ written ys"
  by (induction xs rule: written.induct) simp_all

lemma data_rows_append [simp]: "data_rows (xs @ ys) = data_rows xs @ data_rows ys"
  by (induction xs rule: data_rows.induct) simp_all

lemma written_enriched [simp]: "written (map (\<lambda>r. Enriched (f r)) rs) = []"
  by (induction rs) simp_all

lemma written_wrote [simp]: "written (map (\<lambda>r. Wrote (g r)) rs) = map g rs"
  by (induction rs) simp_all

lemma data_rows_data [simp]: "data_rows (map Data rs) = rs"
  by (induction rs) simp_all

lemma written_save_batch:
  "written (save_batch arrived) = map Data (sort_key number arrived)"
  by (simp add: save_batch_def)

lemma sorted_wrt_take_drop:
  "sorted_wrt P xs \<Longrightarrow> sorted_wrt P (take n (drop i xs))"
  by (simp add: sorted_wrt_drop sorted_wrt_take)

lemma rows_of_append: "rows_of e en_t ja_t (xs @ ys) = rows_of e en_t ja_t xs @ rows_of e en_t ja_t ys"
  by (simp add: rows_of_def)

lemma batch_loop_written:
  assumes "0 < bs" "sorted_wrt (<) (map fst tasks)" "\<forall>i. \<not> cancelled e i"
  shows "fst (batch_loop e en_t ja_t bs tasks i log) = None \<and>
         written (snd (batch_loop e en_t ja_t bs tasks i log)) =
           written log @ map Data (rows_of e en_t ja_t (drop i tasks))"
  using assms
proof (induction e en_t ja_t bs tasks i log rule: batch_loop.induct)
  case (1 e en_t ja_t bs tasks i log)
  show ?case
  proof (cases "length tasks \<le> i")
    case True
    then show ?thesis using "1.prems"
      by (subst (1 2) batch_loop.simps) (simp add: rows_of_def)
  next
    case False
    let ?batch = "take bs (drop i tasks)"
    let ?saved = "log @ save_batch (enrich_batch e en_t ja_t ?batch)"
    let ?paused = "if i + bs < length tasks then ?saved @ [Paused 2] else ?saved"
    have step: "batch_loop e en_t ja_t bs tasks i log =
        batch_loop e en_t ja_t bs tasks (i + bs) ?paused"
      using False "1.prems" by (subst batch_loop.simps) (simp add: Let_def)
    have IH: "fst (batch_loop e en_t ja_t bs tasks (i + bs) ?paused) = None \<and>
        written (snd (batch_loop e en_t ja_t bs tasks (i + bs) ?paused)) =
          written ?paused @ map Data (rows_of e en_t ja_t (drop (i + bs) tasks))"
      using False "1.prems" by (intro "1.IH") simp_all
    have "sorted_wrt (<) (map fst ?batch)"
      using "1.prems"(2) by (simp add: sorted_wrt_take_drop flip: take_map drop_map)
    then have sb: "sort_key number (enrich_batch e en_t ja_t ?batch) = rows_of e en_t ja_t ?batch"
      by (rule sorted_enrich_batch)
    have ws: "written ?saved = written log @ map Data (rows_of e en_t ja_t ?batch)"
      unfolding written_append written_save_batch sb by (rule refl)
    have "written ?paused = written ?saved"
      by simp
    with ws have w: "written ?paused = written log @ map Data (rows_of e en_t ja_t ?batch)"
      by (simp only:)
    have "drop i tasks = ?batch @ drop (i + bs) tasks"
      by (metis add.commute append_take_drop_id drop_drop)
    then have "rows_of e en_t ja_t (drop i tasks) =
        rows_of e en_t ja_t ?batch @ rows_of e en_t ja_t (drop (i + bs) tasks)"
      by (metis rows_of_append)
    with IH w show ?thesis unfolding step by simp
  qed
qed


lemma rows_of_tasks:
  "rows_of e en_t ja_t (map (\<lambda>n. (n, species_list ! nat (n - 1))) ns) =
     map (row_at e species_list en_t ja_t) ns"
  by (simp add: rows_of_def row_at_def)

lemma run_complete:
  assumes "1 \<le> start_line" "end_line \<le> int (length species_list)" "0 < bs"
    and "\<forall>i. \<not> cancelled e i"
  shows "process_and_save_batch e species_list start_line end_line en_t ja_t output mode bs =
           (None,
            Some (py_open output mode @ written (snd (snd
              (process_and_save_batch e species_list start_line end_line en_t ja_t output mode bs)))),
            snd (snd (process_and_save_batch e species_list start_line end_line en_t ja_t output
              mode bs))) \<and>
         written (snd (snd (process_and_save_batch e species_list start_line end_line en_t ja_t
           output mode bs))) =
           (if mode = W then [Header fieldnames] else []) @
           map (\<lambda>n. Data (row_at e species_list en_t ja_t n)) [start_line..end_line]"
proof -
  let ?tasks = "map (\<lambda>n. (n, species_list ! nat (n - 1))) [start_line..end_line]"
  let ?header = "if mode = W then [Wrote (Header fieldnames), Flushed] else []"
  let ?loop = "batch_loop e en_t ja_t (nat bs) ?tasks 0 ?header"
  have tasks: "make_tasks species_list [start_line - 1..end_line - 1] = Inr ?tasks"
    using assms(1,2) by (rule make_tasks_range)
  have "sorted_wrt (<) (map fst ?tasks)"
    by (simp add: comp_def)
  with assms(3,4) have "fst ?loop = None \<and>
      written (snd ?loop) = written ?header @ map Data (rows_of e en_t ja_t (drop 0 ?tasks))"
    by (intro batch_loop_written) simp_all
  then have loop: "fst ?loop = None"
    "written (snd ?loop) = (if mode = W then [Header fieldnames] else []) @
       map (\<lambda>n. Data (row_at e species_list en_t ja_t n)) [start_line..end_line]"
    by (simp_all add: rows_of_tasks)
  have run: "process_and_save_batch e species_list start_line end_line en_t ja_t output mode bs =
      (fst ?loop, Some (py_open output mode @ written (snd ?loop)), snd ?loop)"
    using assms(3) by (simp add: process_and_save_batch_def tasks Let_def case_prod_unfold)
  show ?thesis
    unfolding run using loop by simp
qed

lemma data_rows_map_Data: "data_rows (map (\<lambda>n. Data (f n)) ns) = map f ns"
  by (induction ns) simp_all

text \<open>
  C1. For a range within the loaded list, a positive batch size and a run that is not
  cancelled, the rows that \<open>process_and_save_batch\<close> writes have the ordinals
  \<open>start_line, ..., end_line\<close>, each once and in increasing order, whatever the completion
  times of the tasks are.
\<close>

theorem process_and_save_batch_ordinals:
  assumes "1 \<le> start_line" "end_line \<le> int (length species_list)" "0 < bs"
    and "\<forall>i. \<not> cancelled e i"
  shows "fst (process_and_save_batch e species_list start_line end_line en_t ja_t output mode bs) =
           None \<and>
         map number (data_rows (written (snd (snd
           (process_and_save_batch e species_list start_line end_line en_t ja_t output mode bs))))) =
           [start_line..end_line] \<and>
         sorted_wrt (<) (map number (data_rows (written (snd (snd
           (process_and_save_batch e species_list start_line end_line en_t ja_t output mode bs))))))"
proof -
  let ?run = "process_and_save_batch e species_list start_line end_line en_t ja_t output mode bs"
  from run_complete[OF assms, of en_t ja_t "output" mode]
  have r: "?run = (None, Some (py_open output mode @ written (snd (snd ?run))), snd (snd ?run))"
    and w: "written (snd (snd ?run)) = (if mode = W then [Header fieldnames] else []) @
           map (\<lambda>n. Data (row_at e species_list en_t ja_t n)) [start_line..end_line]"
    by blast+
  have n: "map number (data_rows (written (snd (snd ?run)))) = [start_line..end_line]"
    unfolding w
    by (cases mode) (simp_all add: row_at_def comp_def data_rows_map_Data)
  from r have "fst ?run = None" by (metis fst_conv)
  with n show ?thesis by simp
qed


theorem process_and_save_batch_ordinals_witness:
  "1 \<le> (1::int) \<and> (3::int) \<le> int (length example_species) \<and> (0::int) < 2 \<and>
   (\<forall>i. \<not> cancelled example_env i) \<and>
   fst (process_and_save_batch example_env example_species 1 3 (ascii ''[species]'')
     (ascii ''[species]'') None W 2) = None \<and>
   map number (data_rows (written (snd (snd (process_and_save_batch example_env example_species
     1 3 (ascii ''[species]'') (ascii ''[species]'') None W 2))))) = [1, 2, 3]"
proof -
  have h: "(1::int) \<le> 1" "(3::int) \<le> int (length example_species)" "(0::int) < 2"
    "\<forall>i. \<not> cancelled example_env i"
    by (simp_all add: example_species_def example_env_def)
  from process_and_save_batch_ordinals[OF h, of "ascii ''[species]''" "ascii ''[species]''" None W]
    h
  show ?thesis by (simp add: upto.simps)
qed

text \<open>
  C3. A run over the ordinals 1 to 5 that creates the file, followed by a run over 6 to 10
  that appends to it, leaves the file of one creating run over 1 to 10: the header and
  the same ten rows in the same order, provided that the service gives each identifier
  the same two labels in the executions. The batch sizes and the completion times of the
  three runs may differ, and so may the files found by the creating runs.
\<close>

theorem resume_equals_single_run:
  assumes "10 \<le> length species_list" "0 < b1" "0 < b2" "0 < b3"
    and "\<forall>i. \<not> cancelled e1 i" "\<forall>i. \<not> cancelled e2 i" "\<forall>i. \<not> cancelled e3 i"
    and "\<forall>n. english_common_name (row_at e1 species_list en_t ja_t n) =
               english_common_name (row_at e3 species_list en_t ja_t n) \<and>
             japanese_common_name (row_at e1 species_list en_t ja_t n) =
               japanese_common_name (row_at e3 species_list en_t ja_t n)"
    and "\<forall>n. english_common_name (row_at e2 species_list en_t ja_t n) =
               english_common_name (row_at e3 species_list en_t ja_t n) \<and>
             japanese_common_name (row_at e2 species_list en_t ja_t n) =
               japanese_common_name (row_at e3 species_list en_t ja_t n)"
  shows "fst (snd (process_and_save_batch e2 species_list 6 10 en_t ja_t
           (fst (snd (process_and_save_batch e1 species_list 1 5 en_t ja_t out1 W b1))) A b2)) =
         fst (snd (process_and_save_batch e3 species_list 1 10 en_t ja_t out3 W b3)) \<and>
         fst (snd (process_and_save_batch e3 species_list 1 10 en_t ja_t out3 W b3)) =
           Some (Header fieldnames # map (\<lambda>n. Data (row_at e3 species_list en_t ja_t n)) [1..10])"
proof -
  let ?first = "process_and_save_batch e1 species_list 1 5 en_t ja_t out1 W b1"
  let ?second = "process_and_save_batch e2 species_list 6 10 en_t ja_t (fst (snd ?first)) A b2"
  let ?single = "process_and_save_batch e3 species_list 1 10 en_t ja_t out3 W b3"
  let ?row = "\<lambda>n. Data (row_at e3 species_list en_t ja_t n)"
  from assms(1) have len: "(5::int) \<le> int (length species_list)"
    "(10::int) \<le> int (length species_list)"
    by simp_all
  have "row_at e1 species_list en_t ja_t n = row_at e3 species_list en_t ja_t n" for n
    using assms(8) by (intro row.equality) (simp_all add: row_at_def process_species_def)
  then have r1: "(\<lambda>n. Data (row_at e1 species_list en_t ja_t n)) = ?row"
    by simp
  have "row_at e2 species_list en_t ja_t n = row_at e3 species_list en_t ja_t n" for n
    using assms(9) by (intro row.equality) (simp_all add: row_at_def process_species_def)
  then have r2: "(\<lambda>n. Data (row_at e2 species_list en_t ja_t n)) = ?row"
    by simp
  from run_complete[of 1 5 species_list b1 e1 en_t ja_t out1 W] len(1) assms(2,5)
  have "fst (snd ?first) = Some (py_open out1 W @ written (snd (snd ?first)))"
    and "written (snd (snd ?first)) = [Header fieldnames] @ map ?row [1..5]"
    unfolding r1 by (metis fst_conv snd_conv one_le_numeral order_refl, simp)
  then have f: "fst (snd ?first) = Some (Header fieldnames # map ?row [1..5])"
    by simp
  from run_complete[of 6 10 species_list b2 e2 en_t ja_t "fst (snd ?first)" A] len(2) assms(3,6)
  have "fst (snd ?second) = Some (py_open (fst (snd ?first)) A @ written (snd (snd ?second)))"
    and "written (snd (snd ?second)) = map ?row [6..10]"
    unfolding r2 by (metis fst_conv snd_conv one_le_numeral, simp)
  then have s: "fst (snd ?second) = Some (Header fieldnames # map ?row [1..5] @ map ?row [6..10])"
    by (simp add: f)
  from run_complete[of 1 10 species_list b3 e3 en_t ja_t out3 W] len(2) assms(4,7)
  have "fst (snd ?single) = Some (py_open out3 W @ written (snd (snd ?single)))"
    and "written (snd (snd ?single)) = [Header fieldnames] @ map ?row [1..10]"
    by (metis fst_conv snd_conv one_le_numeral order_refl, simp)
  then have t: "fst (snd ?single) = Some (Header fieldnames # map ?row [1..10])"
    by simp
  have "[1..10::int] = [1..5] @ [6..10]"
    using upto_split2[of 1 5 10] by simp
  then have "map ?row [1..10] = map ?row [1..5] @ map ?row [6..10]"
    by (metis map_append)
  with s t show ?thesis by simp
qed

theorem resume_equals_single_run_witness:
  "10 \<le> length ten_species \<and>
   (\<forall>i. \<not> cancelled example_env i) \<and>
   (\<forall>i. \<not> cancelled (example_env\<lparr>finish_time := nat\<rparr>) i) \<and>
   fst (snd (process_and_save_batch (example_env\<lparr>finish_time := nat\<rparr>) ten_species 6 10
     (ascii ''[species]'') (ascii ''[species]'')
     (fst (snd (process_and_save_batch example_env ten_species 1 5 (ascii ''[species]'')
        (ascii ''[species]'') (Some [Header []]) W 2))) A 3)) =
   fst (snd (process_and_save_batch example_env ten_species 1 10 (ascii ''[species]'')
     (ascii ''[species]'') None W 10))"
proof -
  let ?t = "ascii ''[species]''"
  have h: "10 \<le> length ten_species" "(0::int) < 2" "(0::int) < 3" "(0::int) < 10"
    "\<forall>i. \<not> cancelled example_env i"
    "\<forall>i. \<not> cancelled (example_env\<lparr>finish_time := nat\<rparr>) i"
    "\<forall>i. \<not> cancelled example_env i"
    "\<forall>n. english_common_name (row_at example_env ten_species ?t ?t n) =
               english_common_name (row_at example_env ten_species ?t ?t n) \<and>
             japanese_common_name (row_at example_env ten_species ?t ?t n) =
               japanese_common_name (row_at example_env ten_species ?t ?t n)"
    "\<forall>n. english_common_name (row_at (example_env\<lparr>finish_time := nat\<rparr>) ten_species ?t ?t n) =
               english_common_name (row_at example_env ten_species ?t ?t n) \<and>
             japanese_common_name (row_at (example_env\<lparr>finish_time := nat\<rparr>) ten_species ?t ?t n) =
               japanese_common_name (row_at example_env ten_species ?t ?t n)"
    by (simp_all add: ten_species_def example_env_def row_at_def)
  from resume_equals_single_run[OF h, of "Some [Header []]" None] h
  show ?thesis by blast
qed

lemma make_tasks_error: "make_tasks species_list indices = Inl err \<Longrightarrow> err = IndexError"
  by (induction indices arbitrary: err)
    (auto simp: py_index_def split: sum.splits if_splits)

lemma written_data_save_batch:
  "written (save_batch arrived) = map Data (data_rows (written (save_batch arrived)))"
  by (simp add: save_batch_def)

lemma batch_loop_extends:
  "\<exists>ext. snd (batch_loop e en_t ja_t bs tasks i log) = log @ ext \<and>
         written ext = map Data (data_rows (written ext)) \<and>
         fst (batch_loop e en_t ja_t bs tasks i log) \<in> {None, Some CancelledError}"
proof (induction e en_t ja_t bs tasks i log rule: batch_loop.induct)
  case (1 e en_t ja_t bs tasks i log)
  show ?case
  proof (cases "bs = 0 \<or> length tasks \<le> i \<or> cancelled e i")
    case True
    then show ?thesis by (subst (1 2) batch_loop.simps) auto
  next
    case False
    let ?batch = "take bs (drop i tasks)"
    let ?saved = "log @ save_batch (enrich_batch e en_t ja_t ?batch)"
    let ?paused = "if i + bs < length tasks then ?saved @ [Paused 2] else ?saved"
    have step: "batch_loop e en_t ja_t bs tasks i log =
        batch_loop e en_t ja_t bs tasks (i + bs) ?paused"
      using False by (subst batch_loop.simps) (simp add: Let_def)
    from False have "\<exists>ext. snd (batch_loop e en_t ja_t bs tasks (i + bs) ?paused) = ?paused @ ext \<and>
         written ext = map Data (data_rows (written ext)) \<and>
         fst (batch_loop e en_t ja_t bs tasks (i + bs) ?paused) \<in> {None, Some CancelledError}"
      by (intro "1.IH") simp_all
    then obtain ext where ext: "snd (batch_loop e en_t ja_t bs tasks (i + bs) ?paused) = ?paused @ ext"
      "written ext = map Data (data_rows (written ext))"
      "fst (batch_loop e en_t ja_t bs tasks (i + bs) ?paused) \<in> {None, Some CancelledError}"
      by blast
    obtain mid where mid: "?paused = log @ mid" "written mid = map Data (data_rows (written mid))"
    proof (cases "i + bs < length tasks")
      case True
      show ?thesis
        by (rule that[of "save_batch (enrich_batch e en_t ja_t ?batch) @ [Paused 2]"])
          (use True in \<open>simp_all add: save_batch_def\<close>)
    next
      case False
      show ?thesis
        by (rule that[of "save_batch (enrich_batch e en_t ja_t ?batch)"])
          (use False in \<open>simp_all add: save_batch_def\<close>)
    qed
    have "written (mid @ ext) = map Data (data_rows (written (mid @ ext)))"
      using mid(2) ext(2) by (metis data_rows_append map_append written_append)
    moreover have "snd (batch_loop e en_t ja_t bs tasks i log) = log @ (mid @ ext)"
      using ext(1) unfolding step mid(1) by simp
    moreover have "fst (batch_loop e en_t ja_t bs tasks i log) \<in> {None, Some CancelledError}"
      unfolding step by (rule ext(3))
    ultimately show ?thesis
      by blast
  qed
qed


lemma run_index_error:
  assumes "make_tasks species_list [start_line - 1..end_line - 1] = Inl err"
  shows "process_and_save_batch e species_list start_line end_line en_t ja_t out mode bs =
           (Some IndexError, out, [])"
  using assms make_tasks_error[OF assms] by (simp add: process_and_save_batch_def)

lemma run_create:
  assumes "make_tasks species_list [start_line - 1..end_line - 1] = Inr tasks"
  shows "\<exists>ext. snd (snd (process_and_save_batch e species_list start_line end_line en_t ja_t out W bs)) =
             Wrote (Header fieldnames) # Flushed # ext \<and>
           fst (snd (process_and_save_batch e species_list start_line end_line en_t ja_t out W bs)) =
             Some (Header fieldnames # map Data (data_rows (written ext))) \<and>
           fst (process_and_save_batch e species_list start_line end_line en_t ja_t out W bs) \<noteq>
             Some IndexError"
proof (cases "bs \<le> 0")
  case True
  then show ?thesis
    using assms by (auto simp: process_and_save_batch_def Let_def)
next
  case False
  let ?header = "[Wrote (Header fieldnames), Flushed]"
  let ?loop = "batch_loop e en_t ja_t (nat bs) tasks 0 ?header"
  from batch_loop_extends[of e en_t ja_t "nat bs" tasks 0 ?header]
  obtain ext where ext: "snd ?loop = ?header @ ext"
    "written ext = map Data (data_rows (written ext))"
    "fst ?loop \<in> {None, Some CancelledError}"
    by blast
  have run: "process_and_save_batch e species_list start_line end_line en_t ja_t out W bs =
      (fst ?loop, Some (written (snd ?loop)), snd ?loop)"
    using False assms by (simp add: process_and_save_batch_def Let_def case_prod_unfold)
  have "written (snd ?loop) = Header fieldnames # map Data (data_rows (written ext))"
    unfolding ext(1) using ext(2) by simp
  with ext(1,3) show ?thesis
    unfolding run by auto
qed

lemma make_tasks_cases:
  "(\<exists>err. make_tasks species_list indices = Inl err) \<or>
   (\<exists>tasks. make_tasks species_list indices = Inr tasks)"
  by (cases "make_tasks species_list indices") auto

lemma run_append:
  assumes "make_tasks species_list [start_line - 1..end_line - 1] = Inr tasks"
  shows "written (snd (snd (process_and_save_batch e species_list start_line end_line en_t ja_t
             out A bs))) =
           map Data (data_rows (written (snd (snd (process_and_save_batch e species_list
             start_line end_line en_t ja_t out A bs))))) \<and>
         fst (snd (process_and_save_batch e species_list start_line end_line en_t ja_t out A bs)) =
           Some ((case out of None \<Rightarrow> [] | Some content \<Rightarrow> content) @
             written (snd (snd (process_and_save_batch e species_list start_line end_line en_t
               ja_t out A bs))))"
proof -
  have op: "py_open out A = (case out of None \<Rightarrow> [] | Some content \<Rightarrow> content)"
    by (cases out) simp_all
  show ?thesis
  proof (cases "bs \<le> 0")
    case True
    then show ?thesis
      using assms by (auto simp: process_and_save_batch_def Let_def op)
  next
    case False
    let ?loop = "batch_loop e en_t ja_t (nat bs) tasks 0 []"
    from batch_loop_extends[of e en_t ja_t "nat bs" tasks 0 "[]"]
    obtain ext where ext: "snd ?loop = ext" "written ext = map Data (data_rows (written ext))"
      by auto
    have run: "process_and_save_batch e species_list start_line end_line en_t ja_t out A bs =
        (fst ?loop, Some (py_open out A @ written (snd ?loop)), snd ?loop)"
      using False assms by (simp add: process_and_save_batch_def Let_def case_prod_unfold)
    show ?thesis
      unfolding run using ext by (simp add: op)
  qed
qed

text \<open>
  C9. The run appends exactly when a single line is asked for, or the start is greater
  than 1 and the output file exists; otherwise it creates. An appending run that gets to
  open the file writes no header and leaves the former content of the file (nothing,
  when no file was there) followed by the rows of this run. A creating run that gets to
  open the file (the ranges with a start of at least 1 always do) leaves a file that
  begins with the header and holds nothing but the rows of this run, whatever was there
  before and also when no file was there; with a positive batch size and no cancellation
  it ends without an exception. When the run ends in IndexError, which is raised before
  the file is opened, the file is as it was.
\<close>

theorem main_async_file_mode:
  "(choose_mode a out = A \<longleftrightarrow> line a \<noteq> None \<or> (1 < start a \<and> out \<noteq> None)) \<and>
   (choose_mode a out = W \<and> fst (main_async e a species_list en_t ja_t out) \<noteq> Some IndexError \<longrightarrow>
      (\<exists>ext. snd (snd (main_async e a species_list en_t ja_t out)) =
               Wrote (Header fieldnames) # Flushed # ext \<and>
             fst (snd (main_async e a species_list en_t ja_t out)) =
               Some (Header fieldnames # map Data (data_rows (written ext))))) \<and>
   (line a = None \<and> 1 \<le> start a \<longrightarrow>
      fst (main_async e a species_list en_t ja_t out) \<noteq> Some IndexError) \<and>
   (line a = None \<and> 1 \<le> start a \<and> 0 < batch_size a \<and> (\<forall>i. \<not> cancelled e i) \<longrightarrow>
      fst (main_async e a species_list en_t ja_t out) = None) \<and>
   (fst (main_async e a species_list en_t ja_t out) = Some IndexError \<longrightarrow>
      fst (snd (main_async e a species_list en_t ja_t out)) = out) \<and>
   ((line a \<noteq> None \<or> (1 < start a \<and> out \<noteq> None)) \<and>
      fst (main_async e a species_list en_t ja_t out) \<noteq> Some IndexError \<longrightarrow>
      written (snd (snd (main_async e a species_list en_t ja_t out))) =
        map Data (data_rows (written (snd (snd (main_async e a species_list en_t ja_t out))))) \<and>
      fst (snd (main_async e a species_list en_t ja_t out)) =
        Some ((case out of None \<Rightarrow> [] | Some content \<Rightarrow> content) @
          written (snd (snd (main_async e a species_list en_t ja_t out))))) \<and>
   (\<not> (line a \<noteq> None \<or> (1 < start a \<and> out \<noteq> None)) \<and>
      fst (main_async e a species_list en_t ja_t out) \<noteq> Some IndexError \<longrightarrow>
      (\<exists>ext. snd (snd (main_async e a species_list en_t ja_t out)) =
               Wrote (Header fieldnames) # Flushed # ext \<and>
             fst (snd (main_async e a species_list en_t ja_t out)) =
               Some (Header fieldnames # map Data (data_rows (written ext)))))"
proof -
  obtain s t where range: "choose_range a species_list = (s, t)"
    by (cases "choose_range a species_list")
  let ?run = "\<lambda>mode. process_and_save_batch e species_list s t en_t ja_t out mode (batch_size a)"
  have main: "main_async e a species_list en_t ja_t out = ?run (choose_mode a out)"
    by (simp add: main_async_def range)
  have c1: "choose_mode a out = A \<longleftrightarrow> line a \<noteq> None \<or> (1 < start a \<and> out \<noteq> None)"
    by (simp add: choose_mode_def split: option.splits)
  have c2: "\<exists>ext. snd (snd (?run W)) = Wrote (Header fieldnames) # Flushed # ext \<and>
      fst (snd (?run W)) = Some (Header fieldnames # map Data (data_rows (written ext)))"
    if "fst (?run W) \<noteq> Some IndexError"
  proof -
    from make_tasks_cases[of species_list "[s - 1..t - 1]"] show ?thesis
    proof (elim disjE exE)
      fix err assume "make_tasks species_list [s - 1..t - 1] = Inl err"
      from run_index_error[OF this, of e en_t ja_t out W "batch_size a"] that
      show ?thesis by simp
    next
      fix tasks assume "make_tasks species_list [s - 1..t - 1] = Inr tasks"
      from run_create[OF this, of e en_t ja_t out "batch_size a"]
      show ?thesis by blast
    qed
  qed
  have c6: "written (snd (snd (?run A))) = map Data (data_rows (written (snd (snd (?run A))))) \<and>
      fst (snd (?run A)) =
        Some ((case out of None \<Rightarrow> [] | Some content \<Rightarrow> content) @ written (snd (snd (?run A))))"
    if "fst (?run A) \<noteq> Some IndexError"
  proof -
    from make_tasks_cases[of species_list "[s - 1..t - 1]"] show ?thesis
    proof (elim disjE exE)
      fix err assume "make_tasks species_list [s - 1..t - 1] = Inl err"
      from run_index_error[OF this, of e en_t ja_t out A "batch_size a"] that
      show ?thesis by simp
    next
      fix tasks assume "make_tasks species_list [s - 1..t - 1] = Inr tasks"
      then show ?thesis by (rule run_append)
    qed
  qed
  have c5: "fst (snd (?run mode)) = out" if "fst (?run mode) = Some IndexError" for mode
  proof -
    from make_tasks_cases[of species_list "[s - 1..t - 1]"] show ?thesis
    proof (elim disjE exE)
      fix err assume "make_tasks species_list [s - 1..t - 1] = Inl err"
      from run_index_error[OF this, of e en_t ja_t out mode "batch_size a"]
      show ?thesis by simp
    next
      fix tasks assume tasks: "make_tasks species_list [s - 1..t - 1] = Inr tasks"
      have "fst (?run mode) \<in> {None, Some ValueError, Some CancelledError}"
        using batch_loop_extends[of e en_t ja_t "nat (batch_size a)" tasks 0
            "if mode = W then [Wrote (Header fieldnames), Flushed] else []"]
        by (auto simp: process_and_save_batch_def tasks Let_def case_prod_unfold)
      with that show ?thesis by auto
    qed
  qed
  have c3: "fst (?run mode) \<noteq> Some IndexError" if "line a = None" "1 \<le> start a" for mode
  proof -
    from that range have st: "s = start a" "t = int (length species_list)"
      by (simp_all add: choose_range_def)
    with that(2) have "make_tasks species_list [s - 1..t - 1] =
        Inr (map (\<lambda>n. (n, species_list ! nat (n - 1))) [s..t])"
      by (intro make_tasks_range) simp_all
    then have "fst (?run mode) \<in> {None, Some ValueError, Some CancelledError}"
      using batch_loop_extends[of e en_t ja_t "nat (batch_size a)"
          "map (\<lambda>n. (n, species_list ! nat (n - 1))) [s..t]" 0
          "if mode = W then [Wrote (Header fieldnames), Flushed] else []"]
      by (auto simp: process_and_save_batch_def Let_def case_prod_unfold)
    then show ?thesis by auto
  qed
  have c4: "fst (?run mode) = None"
    if "line a = None" "1 \<le> start a" "0 < batch_size a" "\<forall>i. \<not> cancelled e i" for mode
  proof -
    from that range have st: "s = start a" "t = int (length species_list)"
      by (simp_all add: choose_range_def)
    from st that have "1 \<le> s" "t \<le> int (length species_list)" by simp_all
    from run_complete[OF this that(3,4), of en_t ja_t out mode]
    show ?thesis by (metis fst_conv)
  qed
  show ?thesis
  proof (cases "choose_mode a out")
    case W
    with c1 have n: "\<not> (line a \<noteq> None \<or> (1 < start a \<and> out \<noteq> None))" by simp
    from c1 c2 c3[of W] c4[of W] c5[of W] n W show ?thesis
      unfolding main W by auto
  next
    case A
    with c1 have y: "line a \<noteq> None \<or> (1 < start a \<and> out \<noteq> None)" by simp
    from c1 c6 c3[of A] c4[of A] c5[of A] y A show ?thesis
      unfolding main A by auto
  qed
qed

lemma ex_append_run:
  "main_async example_env (default_args\<lparr>start := 2\<rparr>) example_species (ascii ''[species]'')
     (ascii ''[species]'')
     (Some [Header fieldnames,
            Data \<lparr>number = 1, scientific_name = ascii ''Panthera leo'',
                  english_common_name = ascii ''Lion'', japanese_common_name = ascii ''Lion''\<rparr>]) =
   (None,
    Some [Header fieldnames,
          Data \<lparr>number = 1, scientific_name = ascii ''Panthera leo'',
                english_common_name = ascii ''Lion'', japanese_common_name = ascii ''Lion''\<rparr>,
          Data \<lparr>number = 2, scientific_name = ascii ''Canis lupus'',
                english_common_name = ascii ''Canis lupus'',
                japanese_common_name = ascii ''Canis lupus''\<rparr>,
          Data \<lparr>number = 3, scientific_name = ascii ''Felis catus'',
                english_common_name = ascii ''Felis catus'',
                japanese_common_name = ascii ''Felis catus''\<rparr>],
    [Enriched 3, Enriched 2,
     Wrote (Data \<lparr>number = 2, scientific_name = ascii ''Canis lupus'',
                english_common_name = ascii ''Canis lupus'',
                japanese_common_name = ascii ''Canis lupus''\<rparr>),
     Wrote (Data \<lparr>number = 3, scientific_name = ascii ''Felis catus'',
                english_common_name = ascii ''Felis catus'',
                japanese_common_name = ascii ''Felis catus''\<rparr>),
     Flushed])"
  by (simp add: main_async_def choose_range_def choose_mode_def default_args_def
      process_and_save_batch_def py_index_def example_species_def example_env_def
      batch_loop.simps save_batch_def enrich_batch_def process_species_def
      get_common_name_def build_request_def try_body_def clean_defs gpt_4o_def
      upto.simps Let_def)

lemma ex_single_line_run:
  "main_async example_env (default_args\<lparr>line := Some 3\<rparr>) example_species (ascii ''[species]'')
     (ascii ''[species]'') None =
   (None,
    Some [Data \<lparr>number = 3, scientific_name = ascii ''Felis catus'',
                english_common_name = ascii ''Felis catus'',
                japanese_common_name = ascii ''Felis catus''\<rparr>],
    [Enriched 3,
     Wrote (Data \<lparr>number = 3, scientific_name = ascii ''Felis catus'',
                english_common_name = ascii ''Felis catus'',
                japanese_common_name = ascii ''Felis catus''\<rparr>),
     Flushed])"
  by (simp add: main_async_def choose_range_def choose_mode_def default_args_def
      process_and_save_batch_def py_index_def example_species_def example_env_def
      batch_loop.simps save_batch_def enrich_batch_def process_species_def
      get_common_name_def build_request_def try_body_def clean_defs gpt_4o_def
      upto.simps Let_def)

theorem main_async_file_mode_witness:
  "choose_mode default_args (Some [Header []]) = W \<and>
   fst (main_async example_env default_args example_species (ascii ''[species]'')
     (ascii ''[species]'') (Some [Header []])) = None \<and>
   (\<exists>ext. fst (snd (main_async example_env default_args example_species (ascii ''[species]'')
       (ascii ''[species]'') (Some [Header []]))) =
     Some (Header fieldnames # map Data (data_rows (written ext)))) \<and>
   choose_mode (default_args\<lparr>start := 2\<rparr>) None = W \<and>
   choose_mode (default_args\<lparr>start := 2\<rparr>) (Some []) = A \<and>
   choose_mode (default_args\<lparr>line := Some 3\<rparr>) None = A \<and>
   fst (snd (main_async example_env (default_args\<lparr>start := 2\<rparr>) example_species
     (ascii ''[species]'') (ascii ''[species]'')
     (Some [Header fieldnames,
            Data \<lparr>number = 1, scientific_name = ascii ''Panthera leo'',
                  english_common_name = ascii ''Lion'', japanese_common_name = ascii ''Lion''\<rparr>]))) =
     Some ([Header fieldnames,
            Data \<lparr>number = 1, scientific_name = ascii ''Panthera leo'',
                  english_common_name = ascii ''Lion'', japanese_common_name = ascii ''Lion''\<rparr>] @
           written (snd (snd (main_async example_env (default_args\<lparr>start := 2\<rparr>)
             example_species (ascii ''[species]'') (ascii ''[species]'')
             (Some [Header fieldnames,
                    Data \<lparr>number = 1, scientific_name = ascii ''Panthera leo'',
                          english_common_name = ascii ''Lion'',
                          japanese_common_name = ascii ''Lion''\<rparr>]))))) \<and>
   map number (data_rows (written (snd (snd (main_async example_env
     (default_args\<lparr>start := 2\<rparr>) example_species (ascii ''[species]'') (ascii ''[species]'')
     (Some [Header fieldnames,
            Data \<lparr>number = 1, scientific_name = ascii ''Panthera leo'',
                  english_common_name = ascii ''Lion'',
                  japanese_common_name = ascii ''Lion''\<rparr>])))))) = [2, 3] \<and>
   fst (snd (main_async example_env (default_args\<lparr>line := Some 3\<rparr>) example_species
     (ascii ''[species]'') (ascii ''[species]'') None)) =
     Some (written (snd (snd (main_async example_env (default_args\<lparr>line := Some 3\<rparr>)
       example_species (ascii ''[species]'') (ascii ''[species]'') None)))) \<and>
   written (snd (snd (main_async example_env (default_args\<lparr>line := Some 3\<rparr>)
     example_species (ascii ''[species]'') (ascii ''[species]'') None))) =
     [Data \<lparr>number = 3, scientific_name = ascii ''Felis catus'',
            english_common_name = ascii ''Felis catus'',
            japanese_common_name = ascii ''Felis catus''\<rparr>]"
proof -
  let ?t = "ascii ''[species]''"
  let ?old = "Some [Header fieldnames,
            Data \<lparr>number = 1, scientific_name = ascii ''Panthera leo'',
                  english_common_name = ascii ''Lion'', japanese_common_name = ascii ''Lion''\<rparr>]"
  let ?resume = "main_async example_env (default_args\<lparr>start := 2\<rparr>) example_species ?t ?t ?old"
  let ?single = "main_async example_env (default_args\<lparr>line := Some 3\<rparr>) example_species ?t ?t
    None"
  note inst = main_async_file_mode[of default_args "Some [Header []]" example_env
      example_species ?t ?t]
  have d: "line default_args = None" "1 \<le> start default_args" "0 < batch_size default_args"
    "\<not> 1 < start default_args" "\<forall>i. \<not> cancelled example_env i"
    by (simp_all add: default_args_def example_env_def)
  from inst d have m: "choose_mode default_args (Some [Header []]) = W"
    by (cases "choose_mode default_args (Some [Header []])") auto
  from inst d have n: "fst (main_async example_env default_args example_species ?t ?t
      (Some [Header []])) = None"
    by blast
  from inst m n have x: "\<exists>ext. fst (snd (main_async example_env default_args example_species ?t ?t
       (Some [Header []]))) = Some (Header fieldnames # map Data (data_rows (written ext)))"
    by auto
  from main_async_file_mode[of "default_args\<lparr>start := 2\<rparr>" None example_env example_species ?t ?t]
  have m2: "choose_mode (default_args\<lparr>start := 2\<rparr>) None = W"
    by (cases "choose_mode (default_args\<lparr>start := 2\<rparr>) None") (auto simp: default_args_def)
  from main_async_file_mode[of "default_args\<lparr>start := 2\<rparr>" "Some []" example_env
      example_species ?t ?t]
  have m3: "choose_mode (default_args\<lparr>start := 2\<rparr>) (Some []) = A"
    by (simp add: default_args_def)
  from main_async_file_mode[of "default_args\<lparr>line := Some 3\<rparr>" None example_env
      example_species ?t ?t]
  have m4: "choose_mode (default_args\<lparr>line := Some 3\<rparr>) None = A"
    by (simp add: default_args_def)
  have r: "1 < start (default_args\<lparr>start := 2\<rparr>)" "?old \<noteq> None"
    by (simp_all add: default_args_def)
  have "fst ?resume \<noteq> Some IndexError"
    by (simp add: ex_append_run)
  with r main_async_file_mode[of "default_args\<lparr>start := 2\<rparr>" ?old example_env example_species
      ?t ?t]
  have a1: "fst (snd ?resume) =
      Some ((case ?old of None \<Rightarrow> [] | Some content \<Rightarrow> content) @ written (snd (snd ?resume)))"
    by blast
  have a2: "map number (data_rows (written (snd (snd ?resume)))) = [2, 3]"
    by (simp add: ex_append_run)
  have l: "line (default_args\<lparr>line := Some 3\<rparr>) \<noteq> None"
    by (simp add: default_args_def)
  have "fst ?single \<noteq> Some IndexError"
    by (simp add: ex_single_line_run)
  with l main_async_file_mode[of "default_args\<lparr>line := Some 3\<rparr>" None example_env
      example_species ?t ?t]
  have s1: "fst (snd ?single) =
      Some ((case None of None \<Rightarrow> [] | Some content \<Rightarrow> content) @ written (snd (snd ?single)))"
    by blast
  have s2: "written (snd (snd ?single)) =
      [Data \<lparr>number = 3, scientific_name = ascii ''Felis catus'',
            english_common_name = ascii ''Felis catus'',
            japanese_common_name = ascii ''Felis catus''\<rparr>]"
    by (simp add: ex_single_line_run)
  from a1 have a1': "fst (snd ?resume) =
      Some ([Header fieldnames,
            Data \<lparr>number = 1, scientific_name = ascii ''Panthera leo'',
                  english_common_name = ascii ''Lion'', japanese_common_name = ascii ''Lion''\<rparr>] @
        written (snd (snd ?resume)))"
    by simp
  from s1 have s1': "fst (snd ?single) = Some (written (snd (snd ?single)))"
    by simp
  from m n x m2 m3 m4 a1' a2 s1' s2 show ?thesis by blast
qed

section \<open>Batches are written whole\<close>

lemma split_append:
  assumes "xs @ ys = pre @ x # post"
  shows "(\<exists>q. xs = pre @ x # q) \<or> (\<exists>p. pre = xs @ p \<and> ys = p @ x # post)"
  using assms by (auto simp: append_eq_append_conv2 Cons_eq_append_conv append_eq_Cons_conv)

lemma split_notin_left:
  assumes "xs @ ys = pre @ x # post" "x \<notin> set xs"
  shows "\<exists>p. pre = xs @ p \<and> ys = p @ x # post"
  using split_append[OF assms(1)] assms(2) by auto

lemma set_take_drop:
  "set (take n (drop i xs)) = {xs ! j | j. i \<le> j \<and> j < i + n \<and> j < length xs}"
proof (intro set_eqI iffI)
  fix x assume "x \<in> set (take n (drop i xs))"
  then obtain k where k: "k < length (take n (drop i xs))" "take n (drop i xs) ! k = x"
    by (auto simp: in_set_conv_nth)
  then have "k < n" "i + k < length xs" by auto
  moreover from this k(2) have "x = xs ! (i + k)" by simp
  ultimately show "x \<in> {xs ! j | j. i \<le> j \<and> j < i + n \<and> j < length xs}"
    by (intro CollectI exI[of _ "i + k"]) simp
next
  fix x assume "x \<in> {xs ! j | j. i \<le> j \<and> j < i + n \<and> j < length xs}"
  then obtain j where j: "x = xs ! j" "i \<le> j" "j < i + n" "j < length xs"
    by blast
  then have "j - i < length (take n (drop i xs))" by auto
  moreover from j have "take n (drop i xs) ! (j - i) = x" by simp
  ultimately show "x \<in> set (take n (drop i xs))"
    by (metis nth_mem)
qed

lemma tasks_nth:
  assumes "map fst tasks = [s..t]" "m < length tasks"
  shows "fst (tasks ! m) = s + int m"
proof -
  from assms(2) have "fst (tasks ! m) = map fst tasks ! m" by simp
  also have "\<dots> = [s..t] ! m" by (simp only: assms(1))
  also have "\<dots> = s + int m"
  proof (rule nth_upto)
    from assms have "m < length [s..t]" by (metis length_map)
    then show "s + int m \<le> t" by simp
  qed
  finally show ?thesis .
qed

lemma numbers_enrich_batch:
  "number ` set (enrich_batch e en_t ja_t batch) = fst ` set batch"
  by (force simp: enrich_batch_def)

lemma batch_numbers:
  assumes "map fst tasks = [s..t]"
  shows "number ` set (enrich_batch e en_t ja_t (take bs (drop i tasks))) =
           {s + int j | j. i \<le> j \<and> j < i + bs \<and> j < length tasks}"
proof -
  have "fst ` set (take bs (drop i tasks)) =
      {fst (tasks ! j) | j. i \<le> j \<and> j < i + bs \<and> j < length tasks}"
    unfolding set_take_drop by blast
  also have "\<dots> = {s + int j | j. i \<le> j \<and> j < i + bs \<and> j < length tasks}"
    using tasks_nth[OF assms] by metis
  finally show ?thesis by (simp add: numbers_enrich_batch)
qed

lemma enriched_not_wrote: "Wrote c \<notin> set (map (\<lambda>r. Enriched (f r)) rs)"
  by (induction rs) simp_all

lemma flushed_not_enriched: "Flushed \<notin> set (map (\<lambda>r. Enriched (f r)) rs)"
  by (induction rs) simp_all

lemma flushed_not_wrote: "Flushed \<notin> set (map (\<lambda>r. Wrote (g r)) rs)"
  by (induction rs) simp_all

lemma wrote_data_mem: "Wrote (Data r) \<in> set (map (\<lambda>r. Wrote (Data r)) rs) \<longleftrightarrow> r \<in> set rs"
  by (induction rs) auto

lemma save_batch_write:
  assumes "save_batch arrived = p @ Wrote (Data r) # post"
  shows "r \<in> set arrived \<and> (\<forall>x \<in> set arrived. Enriched (number x) \<in> set p)"
proof -
  let ?E = "map (\<lambda>r. Enriched (number r)) arrived"
  let ?W = "map (\<lambda>r. Wrote (Data r)) (sort_key number arrived)"
  have eq: "?E @ (?W @ [Flushed]) = p @ Wrote (Data r) # post"
    using assms by (simp only: save_batch_def)
  have "Wrote (Data r) \<notin> set ?E" by (rule enriched_not_wrote)
  with eq have "\<exists>p'. p = ?E @ p' \<and> ?W @ [Flushed] = p' @ Wrote (Data r) # post"
    by (rule split_notin_left)
  then obtain p' where p': "p = ?E @ p'" "?W @ [Flushed] = p' @ Wrote (Data r) # post"
    by blast
  have "Wrote (Data r) \<in> set (?W @ [Flushed])"
    unfolding p'(2) by simp
  then have "Wrote (Data r) \<in> set ?W" by simp
  then have "r \<in> set (sort_key number arrived)" by (simp only: wrote_data_mem)
  then have r: "r \<in> set arrived" by simp
  have "\<forall>x \<in> set arrived. Enriched (number x) \<in> set p"
    unfolding p'(1) by simp
  with r show ?thesis by simp
qed

lemma save_batch_flush:
  assumes "save_batch arrived = p @ Flushed # post"
  shows "written p = map Data (sort_key number arrived)"
proof -
  let ?E = "map (\<lambda>r. Enriched (number r)) arrived"
  let ?W = "map (\<lambda>r. Wrote (Data r)) (sort_key number arrived)"
  have eq: "(?E @ ?W) @ [Flushed] = p @ Flushed # post"
    using assms by (simp only: save_batch_def append_assoc)
  have "Flushed \<notin> set (?E @ ?W)"
    using flushed_not_enriched[of number arrived] flushed_not_wrote[of Data "sort_key number arrived"]
    by simp
  with eq have "\<exists>p'. p = (?E @ ?W) @ p' \<and> [Flushed] = p' @ Flushed # post"
    by (rule split_notin_left)
  then obtain p' where p': "p = (?E @ ?W) @ p'" "[Flushed] = p' @ Flushed # post"
    by blast
  from p'(2) have "p' = []" by (cases p') simp_all
  with p'(1) show ?thesis by simp
qed

lemma same_batch_range:
  fixes bs :: nat
  assumes "0 < bs" "bs dvd i"
  shows "m div bs = i div bs \<longleftrightarrow> i \<le> m \<and> m < i + bs"
proof -
  from assms(2) obtain q where q: "i = bs * q" by (auto simp: dvd_def)
  with assms(1) have iq: "i div bs = q" by simp
  show ?thesis
  proof
    assume "m div bs = i div bs"
    then have d: "m div bs = q" by (simp add: iq)
    have "m div bs * bs \<le> m" by simp
    moreover have "m < bs + m div bs * bs"
      using assms(1) by (rule dividend_less_div_times)
    ultimately show "i \<le> m \<and> m < i + bs"
      unfolding d q by (simp add: mult.commute)
  next
    assume "i \<le> m \<and> m < i + bs"
    then have "bs * q \<le> m" "m < bs * Suc q" by (simp_all add: q)
    then have "m div bs = q" by (rule div_nat_eqI)
    then show "m div bs = i div bs" by (simp add: iq)
  qed
qed

lemma batch_atomic_paused:
  assumes "batch_atomic s bs len log"
  shows "batch_atomic s bs len (log @ [Paused n])"
  unfolding batch_atomic_def
proof (intro conjI allI impI)
  fix pre r post m
  assume h: "log @ [Paused n] = pre @ Wrote (Data r) # post \<and> m < len \<and>
    m div bs = nat (number r - s) div bs"
  from split_append[of log "[Paused n]" pre "Wrote (Data r)" post] h
  have "(\<exists>q. log = pre @ Wrote (Data r) # q) \<or>
      (\<exists>p. pre = log @ p \<and> [Paused n] = p @ Wrote (Data r) # post)"
    by blast
  moreover have "\<not> (\<exists>p. [Paused n] = p @ Wrote (Data r) # post)"
    by (auto simp: Cons_eq_append_conv)
  ultimately obtain q where "log = pre @ Wrote (Data r) # q" by blast
  with assms h show "Enriched (s + int m) \<in> set pre"
    unfolding batch_atomic_def by blast
next
  fix pre post
  assume h: "log @ [Paused n] = pre @ Flushed # post"
  from split_append[OF h]
  have "(\<exists>q. log = pre @ Flushed # q) \<or> (\<exists>p. pre = log @ p \<and> [Paused n] = p @ Flushed # post)"
    by blast
  moreover have "\<not> (\<exists>p. [Paused n] = p @ Flushed # post)"
    by (auto simp: Cons_eq_append_conv)
  ultimately obtain q where "log = pre @ Flushed # q" by blast
  with assms show "\<exists>k. length (data_rows (written pre)) = min (k * bs) len"
    unfolding batch_atomic_def by blast
qed

lemma batch_atomic_step:
  assumes bs: "0 < bs" and ord: "map fst tasks = [s..t]" and dvd: "bs dvd i"
    and i: "i < length tasks"
    and rows: "map number (data_rows (written log)) = map fst (take i tasks)"
    and inv: "batch_atomic s bs (length tasks) log"
  shows "batch_atomic s bs (length tasks)
           (log @ save_batch (enrich_batch e en_t ja_t (take bs (drop i tasks))))"
  unfolding batch_atomic_def
proof (intro conjI allI impI)
  let ?arrived = "enrich_batch e en_t ja_t (take bs (drop i tasks))"
  fix pre r post m
  assume h: "log @ save_batch ?arrived = pre @ Wrote (Data r) # post \<and> m < length tasks \<and>
    m div bs = nat (number r - s) div bs"
  then have eq: "log @ save_batch ?arrived = pre @ Wrote (Data r) # post"
    and m: "m < length tasks" "m div bs = nat (number r - s) div bs"
    by simp_all
  from split_append[OF eq] show "Enriched (s + int m) \<in> set pre"
  proof (elim disjE exE conjE)
    fix q assume "log = pre @ Wrote (Data r) # q"
    with inv m show ?thesis unfolding batch_atomic_def by blast
  next
    fix p assume p: "pre = log @ p" "save_batch ?arrived = p @ Wrote (Data r) # post"
    from save_batch_write[OF p(2)]
    have r: "r \<in> set ?arrived" and en: "\<forall>x \<in> set ?arrived. Enriched (number x) \<in> set p"
      by simp_all
    from r have "number r \<in> number ` set ?arrived" by (rule imageI)
    then obtain j where j: "number r = s + int j" "i \<le> j" "j < i + bs" "j < length tasks"
      unfolding batch_numbers[OF ord] by blast
    from j(1) have "nat (number r - s) = j" by simp
    moreover from j(2,3) have "j div bs = i div bs"
      by (simp add: same_batch_range[OF bs dvd])
    ultimately have "m div bs = i div bs" using m(2) by simp
    then have "i \<le> m" "m < i + bs"
      by (simp_all add: same_batch_range[OF bs dvd])
    with m(1) have "s + int m \<in> number ` set ?arrived"
      unfolding batch_numbers[OF ord] by blast
    then obtain x where "x \<in> set ?arrived" "number x = s + int m" by auto
    with en have "Enriched (s + int m) \<in> set p" by metis
    then show ?thesis by (simp add: p(1))
  qed
next
  let ?batch = "take bs (drop i tasks)"
  let ?arrived = "enrich_batch e en_t ja_t ?batch"
  fix pre post
  assume eq: "log @ save_batch ?arrived = pre @ Flushed # post"
  from split_append[OF eq]
  show "\<exists>k. length (data_rows (written pre)) = min (k * bs) (length tasks)"
  proof (elim disjE exE conjE)
    fix q assume "log = pre @ Flushed # q"
    with inv show ?thesis unfolding batch_atomic_def by blast
  next
    fix p assume p: "pre = log @ p" "save_batch ?arrived = p @ Flushed # post"
    have "length (data_rows (written log)) = length (map fst (take i tasks))"
      by (metis rows length_map)
    with i have l: "length (data_rows (written log)) = i" by simp
    have "length (data_rows (written p)) = length ?arrived"
      unfolding save_batch_flush[OF p(2)] by simp
    also have "\<dots> = min bs (length tasks - i)"
      by (simp add: enrich_batch_def)
    finally have "length (data_rows (written pre)) = i + min bs (length tasks - i)"
      by (simp add: p(1) l)
    also have "\<dots> = min (i + bs) (length tasks)"
      using i by simp
    also have "i + bs = (i div bs + 1) * bs"
      using dvd by simp
    finally show ?thesis by blast
  qed
qed

lemma rows_step:
  assumes ord: "map fst tasks = [s..t]"
    and rows: "map number (data_rows (written log)) = map fst (take i tasks)"
  shows "map number (data_rows (written
           (log @ save_batch (enrich_batch e en_t ja_t (take bs (drop i tasks)))))) =
         map fst (take (i + bs) tasks)"
proof -
  let ?batch = "take bs (drop i tasks)"
  have "sorted_wrt (<) (map fst tasks)" by (simp add: ord)
  then have "sorted_wrt (<) (map fst ?batch)"
    by (simp add: sorted_wrt_take_drop flip: take_map drop_map)
  then have sb: "sort_key number (enrich_batch e en_t ja_t ?batch) = rows_of e en_t ja_t ?batch"
    by (rule sorted_enrich_batch)
  have "map number (data_rows (written (save_batch (enrich_batch e en_t ja_t ?batch)))) =
      map fst ?batch"
    unfolding written_save_batch sb by (simp add: number_rows_of)
  moreover have "take (i + bs) tasks = take i tasks @ ?batch"
    by (simp add: take_add)
  ultimately show ?thesis
    by (simp add: rows)
qed

lemma batch_loop_atomic:
  assumes "0 < bs" "map fst tasks = [s..t]" "bs dvd i"
    and "map number (data_rows (written log)) = map fst (take i tasks)"
    and "batch_atomic s bs (length tasks) log"
  shows "batch_atomic s bs (length tasks) (snd (batch_loop e en_t ja_t bs tasks i log)) \<and>
         (\<exists>k. map number (data_rows (written (snd (batch_loop e en_t ja_t bs tasks i log)))) =
              map fst (take (k * bs) tasks))"
  using assms
proof (induction e en_t ja_t bs tasks i log rule: batch_loop.induct)
  case (1 e en_t ja_t bs tasks i log)
  show ?case
  proof (cases "length tasks \<le> i \<or> cancelled e i")
    case True
    then have stop: "snd (batch_loop e en_t ja_t bs tasks i log) = log"
      by (subst batch_loop.simps) auto
    from "1.prems"(3) have "i div bs * bs = i" by simp
    with "1.prems"(4) have "map number (data_rows (written log)) =
        map fst (take (i div bs * bs) tasks)"
      by simp
    with "1.prems"(5) show ?thesis unfolding stop by blast
  next
    case False
    let ?batch = "take bs (drop i tasks)"
    let ?saved = "log @ save_batch (enrich_batch e en_t ja_t ?batch)"
    let ?paused = "if i + bs < length tasks then ?saved @ [Paused 2] else ?saved"
    have step: "batch_loop e en_t ja_t bs tasks i log =
        batch_loop e en_t ja_t bs tasks (i + bs) ?paused"
      using False "1.prems"(1) by (subst batch_loop.simps) (simp add: Let_def)
    from False have i: "i < length tasks" by simp
    have inv: "batch_atomic s bs (length tasks) ?saved"
      using "1.prems"(1,2,3) i "1.prems"(4,5) by (rule batch_atomic_step)
    have rows: "map number (data_rows (written ?saved)) = map fst (take (i + bs) tasks)"
      using "1.prems"(2,4) by (rule rows_step)
    have inv': "batch_atomic s bs (length tasks) ?paused"
    proof (cases "i + bs < length tasks")
      case True
      have "batch_atomic s bs (length tasks) (?saved @ [Paused 2])"
        using inv by (rule batch_atomic_paused)
      then show ?thesis by (simp only: True if_True)
    next
      case False
      from inv show ?thesis by (simp only: False if_False)
    qed
    have "written ?paused = written ?saved"
      by simp
    with rows have rows': "map number (data_rows (written ?paused)) = map fst (take (i + bs) tasks)"
      by (simp only:)
    have "bs dvd i + bs" using "1.prems"(3) by simp
    with False "1.prems"(1,2) rows' inv'
    have "batch_atomic s bs (length tasks)
        (snd (batch_loop e en_t ja_t bs tasks (i + bs) ?paused)) \<and>
      (\<exists>k. map number (data_rows (written (snd (batch_loop e en_t ja_t bs tasks (i + bs) ?paused)))) =
              map fst (take (k * bs) tasks))"
      by (intro "1.IH") simp_all
    then show ?thesis unfolding step .
  qed
qed

lemma batch_atomic_header:
  "batch_atomic s bs len (if mode = W then [Wrote (Header fieldnames), Flushed] else [])"
  unfolding batch_atomic_def
proof (intro conjI allI impI)
  fix pre r post m
  assume "(if mode = W then [Wrote (Header fieldnames), Flushed] else []) =
      pre @ Wrote (Data r) # post \<and> m < len \<and> m div bs = nat (number r - s) div bs"
  then have "Wrote (Data r) \<in> set (if mode = W then [Wrote (Header fieldnames), Flushed] else [])"
    by (metis in_set_conv_decomp)
  then have False by (simp split: if_splits)
  then show "Enriched (s + int m) \<in> set pre" ..
next
  fix pre post
  assume h: "(if mode = W then [Wrote (Header fieldnames), Flushed] else []) = pre @ Flushed # post"
  then have "mode = W" by (auto split: if_splits)
  with h have "[Wrote (Header fieldnames)] @ [Flushed] = pre @ Flushed # post" by simp
  moreover have "Flushed \<notin> set [Wrote (Header fieldnames)]" by simp
  ultimately have "\<exists>p. pre = [Wrote (Header fieldnames)] @ p \<and> [Flushed] = p @ Flushed # post"
    by (rule split_notin_left)
  then obtain p where p: "pre = [Wrote (Header fieldnames)] @ p" "[Flushed] = p @ Flushed # post"
    by blast
  from p(2) have "p = []" by (cases p) simp_all
  with p(1) have "length (data_rows (written pre)) = min (0 * bs) len" by simp
  then show "\<exists>k. length (data_rows (written pre)) = min (k * bs) len" by blast
qed

lemma same_batch_nat:
  fixes bs :: int
  assumes "0 < bs" "s \<le> n" "(n - s) div bs = (k - s) div bs"
  shows "nat (n - s) div nat bs = nat (k - s) div nat bs"
proof (cases "s \<le> k")
  case True
  have "nat (n - s) div nat bs = nat ((n - s) div bs)"
    using assms(2) by (simp add: nat_div_distrib)
  also have "\<dots> = nat ((k - s) div bs)" by (simp only: assms(3))
  also have "\<dots> = nat (k - s) div nat bs"
    using True by (simp add: nat_div_distrib)
  finally show ?thesis .
next
  case False
  then have "(k - s) div bs < 0"
    using assms(1) by (simp add: pos_imp_zdiv_neg_iff)
  moreover have "0 \<le> (n - s) div bs"
    using assms(1,2) by (simp add: pos_imp_zdiv_nonneg_iff)
  ultimately show ?thesis using assms(3) by simp
qed

text \<open>
  C2. For a range within the list and a positive batch size, cancelled or not:
  a row is written only after every item of its batch has produced its result (items \<open>n\<close>
  and \<open>n'\<close> are in the same batch when \<open>(n - start_line) div batch_size\<close> agree); at every
  flush the rows written so far are a whole number of batches (the last batch may be
  short); the rows written by the end of the run are the rows of the first \<open>k\<close> batches for
  some \<open>k\<close>, so each batch is in the file with all its rows or with none; and the file
  holds what was written.
\<close>

theorem process_and_save_batch_whole_batches:
  assumes "1 \<le> start_line" "end_line \<le> int (length species_list)" "0 < bs"
  shows "(\<forall>pre r post n.
            snd (snd (process_and_save_batch e species_list start_line end_line en_t ja_t out mode
              bs)) = pre @ Wrote (Data r) # post \<and>
            start_line \<le> n \<and> n \<le> end_line \<and>
            (n - start_line) div bs = (number r - start_line) div bs \<longrightarrow>
            Enriched n \<in> set pre) \<and>
         (\<forall>pre post.
            snd (snd (process_and_save_batch e species_list start_line end_line en_t ja_t out mode
              bs)) = pre @ Flushed # post \<longrightarrow>
            (\<exists>k. length (data_rows (written pre)) =
                 min (k * nat bs) (nat (end_line - start_line + 1)))) \<and>
         (\<exists>k. map number (data_rows (written (snd (snd
                 (process_and_save_batch e species_list start_line end_line en_t ja_t out mode
                    bs))))) = take (k * nat bs) [start_line..end_line]) \<and>
         fst (snd (process_and_save_batch e species_list start_line end_line en_t ja_t out mode bs)) =
           Some (py_open out mode @ written (snd (snd
             (process_and_save_batch e species_list start_line end_line en_t ja_t out mode bs))))"
proof -
  let ?tasks = "map (\<lambda>n. (n, species_list ! nat (n - 1))) [start_line..end_line]"
  let ?header = "if mode = W then [Wrote (Header fieldnames), Flushed] else []"
  let ?loop = "batch_loop e en_t ja_t (nat bs) ?tasks 0 ?header"
  let ?run = "process_and_save_batch e species_list start_line end_line en_t ja_t out mode bs"
  have tasks: "make_tasks species_list [start_line - 1..end_line - 1] = Inr ?tasks"
    using assms(1,2) by (rule make_tasks_range)
  have run: "?run = (fst ?loop, Some (py_open out mode @ written (snd ?loop)), snd ?loop)"
    using assms(3) by (simp add: process_and_save_batch_def tasks Let_def case_prod_unfold)
  have ord: "map fst ?tasks = [start_line..end_line]"
    by (simp add: comp_def)
  have len: "length ?tasks = nat (end_line - start_line + 1)"
    by simp
  have bs: "0 < nat bs" using assms(3) by simp
  have rows0: "map number (data_rows (written ?header)) = map fst (take 0 ?tasks)"
    by simp
  have "batch_atomic start_line (nat bs) (length ?tasks) ?header"
    by (rule batch_atomic_header)
  with bs ord rows0 have "batch_atomic start_line (nat bs) (length ?tasks) (snd ?loop) \<and>
      (\<exists>k. map number (data_rows (written (snd ?loop))) = map fst (take (k * nat bs) ?tasks))"
    by (intro batch_loop_atomic) simp_all
  then have inv: "batch_atomic start_line (nat bs) (nat (end_line - start_line + 1)) (snd ?loop)"
    and "\<exists>k. map number (data_rows (written (snd ?loop))) = map fst (take (k * nat bs) ?tasks)"
    unfolding len by blast+
  then obtain k where "map number (data_rows (written (snd ?loop))) =
      map fst (take (k * nat bs) ?tasks)"
    by blast
  then have "map number (data_rows (written (snd ?loop))) =
      take (k * nat bs) [start_line..end_line]"
    unfolding take_map[symmetric] ord .
  then have c: "\<exists>k. map number (data_rows (written (snd ?loop))) =
      take (k * nat bs) [start_line..end_line]"
    by blast
  have a: "Enriched n \<in> set pre"
    if "snd ?loop = pre @ Wrote (Data r) # post" "start_line \<le> n" "n \<le> end_line"
      "(n - start_line) div bs = (number r - start_line) div bs" for pre r post n
  proof -
    let ?m = "nat (n - start_line)"
    from that(2,3) have m: "?m < nat (end_line - start_line + 1)" by simp
    from assms(3) that(2,4)
    have "?m div nat bs = nat (number r - start_line) div nat bs"
      by (rule same_batch_nat)
    with inv that(1) m have "Enriched (start_line + int ?m) \<in> set pre"
      unfolding batch_atomic_def by blast
    with that(2) show ?thesis by simp
  qed
  have b: "\<exists>k. length (data_rows (written pre)) =
      min (k * nat bs) (nat (end_line - start_line + 1))"
    if "snd ?loop = pre @ Flushed # post" for pre post
    using inv that unfolding batch_atomic_def by blast
  show ?thesis
    unfolding run using a b c by auto
qed

lemmas run_defs = process_and_save_batch_def py_index_def example_species_def example_env_def
  cancelling_env_def batch_loop.simps save_batch_def enrich_batch_def process_species_def
  get_common_name_def build_request_def try_body_def clean_defs gpt_4o_def fieldnames_def
  upto.simps Let_def

lemma ex_run: "process_and_save_batch cancelling_env example_species 1 3 (ascii ''[species]'')
     (ascii ''[species]'') None W 2 =
   (Some CancelledError,
    Some [Header fieldnames,
          Data \<lparr>number = 1, scientific_name = ascii ''Panthera leo'',
                english_common_name = ascii ''Panthera leo'',
                japanese_common_name = ascii ''Panthera leo''\<rparr>,
          Data \<lparr>number = 2, scientific_name = ascii ''Canis lupus'',
                english_common_name = ascii ''Canis lupus'',
                japanese_common_name = ascii ''Canis lupus''\<rparr>],
    [Wrote (Header fieldnames), Flushed, Enriched 2, Enriched 1,
     Wrote (Data \<lparr>number = 1, scientific_name = ascii ''Panthera leo'',
                english_common_name = ascii ''Panthera leo'',
                japanese_common_name = ascii ''Panthera leo''\<rparr>),
     Wrote (Data \<lparr>number = 2, scientific_name = ascii ''Canis lupus'',
                english_common_name = ascii ''Canis lupus'',
                japanese_common_name = ascii ''Canis lupus''\<rparr>),
     Flushed, Paused 2])"
  by (simp add: run_defs)


theorem process_and_save_batch_whole_batches_witness:
  "fst (process_and_save_batch cancelling_env example_species 1 3 (ascii ''[species]'')
     (ascii ''[species]'') None W 2) = Some CancelledError \<and>
   snd (snd (process_and_save_batch cancelling_env example_species 1 3 (ascii ''[species]'')
     (ascii ''[species]'') None W 2)) =
     [Wrote (Header fieldnames), Flushed, Enriched 2, Enriched 1] @
     Wrote (Data \<lparr>number = 1, scientific_name = ascii ''Panthera leo'',
                english_common_name = ascii ''Panthera leo'',
                japanese_common_name = ascii ''Panthera leo''\<rparr>) #
     [Wrote (Data \<lparr>number = 2, scientific_name = ascii ''Canis lupus'',
                english_common_name = ascii ''Canis lupus'',
                japanese_common_name = ascii ''Canis lupus''\<rparr>),
      Flushed, Paused 2] \<and>
   Enriched 2 \<in> set [Wrote (Header fieldnames), Flushed, Enriched 2, Enriched 1] \<and>
   map number (data_rows (written (snd (snd (process_and_save_batch cancelling_env
     example_species 1 3 (ascii ''[species]'') (ascii ''[species]'') None W 2))))) = [1, 2] \<and>
   (\<exists>k. map number (data_rows (written (snd (snd (process_and_save_batch cancelling_env
     example_species 1 3 (ascii ''[species]'') (ascii ''[species]'') None W 2))))) =
     take (k * nat 2) [1..3])"
proof -
  let ?t = "ascii ''[species]''"
  let ?run = "process_and_save_batch cancelling_env example_species 1 3 ?t ?t None W 2"
  let ?pre = "[Wrote (Header fieldnames), Flushed, Enriched 2, Enriched 1]"
  let ?r = "\<lparr>number = 1, scientific_name = ascii ''Panthera leo'',
                english_common_name = ascii ''Panthera leo'',
                japanese_common_name = ascii ''Panthera leo''\<rparr>"
  let ?post = "[Wrote (Data \<lparr>number = 2, scientific_name = ascii ''Canis lupus'',
                english_common_name = ascii ''Canis lupus'',
                japanese_common_name = ascii ''Canis lupus''\<rparr>),
      Flushed, Paused 2]"
  have h: "1 \<le> (1::int)" "(3::int) \<le> int (length example_species)" "(0::int) < 2"
    by (simp_all add: example_species_def)
  note inst = process_and_save_batch_whole_batches[where start_line = 1 and end_line = 3
      and species_list = example_species and bs = 2 and e = cancelling_env and en_t = ?t
      and ja_t = ?t and out = None and mode = W, OF h]
  have log: "snd (snd ?run) = ?pre @ Wrote (Data ?r) # ?post"
    by (simp add: ex_run)
  from inst have "snd (snd ?run) = ?pre @ Wrote (Data ?r) # ?post \<and> (1::int) \<le> 2 \<and> (2::int) \<le> 3 \<and>
      ((2::int) - 1) div 2 = (number ?r - 1) div 2 \<longrightarrow> Enriched 2 \<in> set ?pre"
    by blast
  with log have en: "Enriched 2 \<in> set ?pre"
    by simp
  from inst have k: "\<exists>k. map number (data_rows (written (snd (snd ?run)))) =
      take (k * nat 2) [1..3]"
    by blast
  have e: "fst ?run = Some CancelledError"
    by (simp add: ex_run)
  have n: "map number (data_rows (written (snd (snd ?run)))) = [1, 2]"
    by (simp add: ex_run)
  from e log en n k show ?thesis by blast
qed

section \<open>Properties of csv\_to\_jsonl\<close>





















end
